theory Spec2Isabelle
  imports Main "HOL-Library.AList" "HOL-Library.Sublist"
begin

section \<open>Go maps and the store that holds the shared ones\<close>

text \<open>
  A Go \<open>map[string]string\<close> is a list of entries, in the order in which a \<open>range\<close>
  loop visits them. Go fixes no such order, so every property below is stated for an
  arbitrary list. A map holds each key once: \<open>wf_gomap\<close>.
  \<open>m[k] = v\<close> is \<open>AList.update k v m\<close>; reading \<open>m[k]\<close> gives the zero value
  \<open>""\<close> when the key is absent.
\<close>

type_synonym gomap = "(string \<times> string) list"

definition wf_gomap :: "gomap \<Rightarrow> bool" where
  "wf_gomap m = distinct (map fst m)"

definition index_or_zero :: "gomap \<Rightarrow> string \<Rightarrow> string" where
  "index_or_zero m k = (case map_of m k of None \<Rightarrow> [] | Some v \<Rightarrow> v)"

text \<open>
  The maps of a data source instance are reached through references
  (\<open>wsds.customQueryParameters\<close>, \<open>channelConfig.queryParams\<close> and the proxy's
  \<open>queryParams\<close> may name one and the same object), so they live in a store:
  \<open>objs h r\<close> is the map at reference \<open>r\<close>, and \<open>nxt h\<close> is the first
  reference that has not been handed out.
\<close>

type_synonym ref = nat

record heap =
  objs :: "ref \<Rightarrow> gomap"
  nxt :: ref

text \<open>\<open>map[string]string{}\<close>: a new, empty map object.\<close>

definition make_map :: "heap \<Rightarrow> ref \<times> heap" where
  "make_map h = (nxt h, h\<lparr>objs := (objs h)(nxt h := []), nxt := Suc (nxt h)\<rparr>)"

text \<open>\<open>m[k] = v\<close> on the map object at \<open>r\<close>.\<close>

definition map_assign :: "ref \<Rightarrow> string \<Rightarrow> string \<Rightarrow> heap \<Rightarrow> heap" where
  "map_assign r k v h = h\<lparr>objs := (objs h)(r := AList.update k v (objs h r))\<rparr>"

section \<open>pkg/plugin/plugin.go: the instance and its channel registry\<close>

record channelConfig =
  path :: string
  queryParams :: ref

text \<open>
  The registry \<open>channelConfigs\<close> is only ever indexed, never ranged over, so it is a
  partial function. \<open>mu\<close> serialises \<open>setChannelConfig\<close> and \<open>getChannelConfig\<close>;
  each of them is one atomic step here.
\<close>

record WebSocketDataSource =
  customHeaders :: ref
  customQueryParameters :: ref
  channelConfigs :: "string \<rightharpoonup> channelConfig"

text \<open>
  \<open>mergeQueryParams\<close>, lines 239-248. The argument is the query's own
  \<open>qm.QueryParams\<close>, which the function only reads (a nil map ranges as an empty one).
\<close>

definition mergeQueryParams :: "WebSocketDataSource \<Rightarrow> gomap \<Rightarrow> heap \<Rightarrow> ref \<times> heap" where
  "mergeQueryParams wsds qps h =
     (let (merged, h1) = make_map h;
          h2 = fold (\<lambda>(k, v). map_assign merged k v) (objs h1 (customQueryParameters wsds)) h1;
          h3 = fold (\<lambda>(k, v). map_assign merged k v) qps h2
      in (merged, h3))"

definition setChannelConfig ::
  "string \<Rightarrow> string \<Rightarrow> ref \<Rightarrow> WebSocketDataSource \<Rightarrow> WebSocketDataSource" where
  "setChannelConfig channelPath basePath params wsds =
     wsds\<lparr>channelConfigs :=
       (channelConfigs wsds)(channelPath \<mapsto> \<lparr>path = basePath, queryParams = params\<rparr>)\<rparr>"

text \<open>\<open>getChannelConfig\<close> returns \<open>(cfg, ok)\<close>: \<open>None\<close> is \<open>ok = false\<close>.\<close>

definition getChannelConfig :: "string \<Rightarrow> WebSocketDataSource \<Rightarrow> channelConfig option" where
  "getChannelConfig channelPath wsds = channelConfigs wsds channelPath"

subsection \<open>Frames and query responses\<close>

text \<open>
  The SDK's \<open>data.Frame\<close>, as far as the plugin fills it: a name, the fields in
  order, and the channel of \<open>FrameMeta\<close> (kept as the \<open>live.Channel\<close> value
  whose rendering the code stores). Every field the plugin builds is a string vector.
\<close>

record Field =
  fname :: string
  fvalues :: "string list"

record Channel =
  Scope :: string
  Namespace :: string
  Path :: string

record Frame =
  Name :: string
  Fields :: "Field list"
  Meta :: "Channel option"

definition NewFrame :: "string \<Rightarrow> Frame" where
  "NewFrame n = \<lparr>Name = n, Fields = [], Meta = None\<rparr>"

definition NewField :: "string \<Rightarrow> string list \<Rightarrow> Field" where
  "NewField n vs = \<lparr>fname = n, fvalues = vs\<rparr>"

record DataResponse =
  Frames :: "Frame list"
  Error :: "string option"

subsection \<open>Channel paths\<close>

text \<open>
  Modelled from the spec: \<open>path.Clean\<close> and \<open>path.Join\<close> are functions of Go's
  standard library, which is not among the sources. The spec says that normalisation
  collapses repeated and trailing separators and that an empty or current-directory path
  normalises away; the definitions follow the library's documented rules, which say the
  same: empty and \<open>.\<close> elements are dropped, a \<open>..\<close> element removes the element
  before it (at the start of a rooted path it is dropped, at the start of a relative
  one it is kept), the result ends in a slash only when it is the root, and an empty
  result is \<open>.\<close>. \<open>Join\<close> skips leading empty elements, puts a slash between the
  others and cleans the result; it is empty when every element is.
\<close>

fun split_slash :: "string \<Rightarrow> string list" where
  "split_slash [] = [[]]"
| "split_slash (c # cs) =
     (if c = CHR ''/'' then [] # split_slash cs
      else (case split_slash cs of [] \<Rightarrow> [[c]] | e # es \<Rightarrow> (c # e) # es))"

fun join_slash :: "string list \<Rightarrow> string" where
  "join_slash [] = []"
| "join_slash [e] = e"
| "join_slash (e # es) = e @ ''/'' @ join_slash es"

definition clean_elem :: "bool \<Rightarrow> string \<Rightarrow> string list \<Rightarrow> string list" where
  "clean_elem rooted e out =
     (if e = [] \<or> e = ''.'' then out
      else if e = ''..'' then
        (if out \<noteq> [] \<and> last out \<noteq> ''..'' then butlast out
         else if rooted then out
         else out @ [''..''])
      else out @ [e])"

definition path_Clean :: "string \<Rightarrow> string" where
  "path_Clean p =
     (case p of
        [] \<Rightarrow> ''.''
      | c # _ \<Rightarrow>
          (let rooted = (c = CHR ''/'');
               out = fold (clean_elem rooted) (split_slash p) [];
               s = (if rooted then ''/'' else []) @ join_slash out
           in if s = [] then ''.'' else s))"

definition path_Join :: "string list \<Rightarrow> string" where
  "path_Join elem =
     (if (\<Sum>e\<leftarrow>elem. length e) = 0 then []
      else path_Clean
        (fold (\<lambda>e buf. if buf \<noteq> [] \<or> e \<noteq> []
                         then (if buf \<noteq> [] then buf @ ''/'' else buf) @ e
                         else buf) elem []))"

subsection \<open>Queries\<close>

record queryModel =
  WsPath :: string
  QueryParams :: gomap

record DataQuery =
  RefID :: string
  JSON :: string

text \<open>
  \<open>query\<close>, lines 95-122. \<open>unmarshal\<close> is \<open>json.Unmarshal\<close> into the
  \<open>queryModel\<close>: the error text, or the decoded model. \<open>uid\<close> is
  \<open>pCtx.DataSourceInstanceSettings.UID\<close>, and \<open>''ds''\<close> is the SDK's
  \<open>live.ScopeDatasource\<close>. The instance is reached through a pointer, so the function
  returns it with the store.
\<close>

definition query ::
  "(string \<Rightarrow> string + queryModel) \<Rightarrow> string \<Rightarrow> DataQuery \<Rightarrow>
   WebSocketDataSource \<times> heap \<Rightarrow> DataResponse \<times> WebSocketDataSource \<times> heap" where
  "query unmarshal uid q st =
     (case st of (wsds, h) \<Rightarrow>
       (case unmarshal (JSON q) of
          Inl e \<Rightarrow> (\<lparr>Frames = [], Error = Some e\<rparr>, wsds, h)
        | Inr qm \<Rightarrow>
            (let frame = NewFrame ''response'';
                 channel = \<lparr>Scope = ''ds'', Namespace = uid,
                            Path = path_Join [path_Clean (WsPath qm), RefID q]\<rparr>;
                 frame = frame\<lparr>Meta := Some channel\<rparr>;
                 (merged, h') = mergeQueryParams wsds (QueryParams qm) h;
                 wsds' = setChannelConfig (Path channel) (WsPath qm) merged wsds
             in (\<lparr>Frames = [frame], Error = None\<rparr>, wsds', h'))))"

text \<open>
  \<open>QueryData\<close>, lines 74-88: the queries one after the other, each response filed
  under its ref id. \<open>QueryData_body\<close> is the body of the loop.
\<close>

definition QueryData_body ::
  "(string \<Rightarrow> string + queryModel) \<Rightarrow> string \<Rightarrow> DataQuery \<Rightarrow>
   (string \<rightharpoonup> DataResponse) \<times> WebSocketDataSource \<times> heap \<Rightarrow>
   (string \<rightharpoonup> DataResponse) \<times> WebSocketDataSource \<times> heap" where
  "QueryData_body unmarshal uid q acc =
     (case acc of (responses, st) \<Rightarrow>
        (case query unmarshal uid q st of
           (res, st') \<Rightarrow> (responses(RefID q \<mapsto> res), st')))"

definition QueryData ::
  "(string \<Rightarrow> string + queryModel) \<Rightarrow> string \<Rightarrow> DataQuery list \<Rightarrow>
   WebSocketDataSource \<times> heap \<Rightarrow> (string \<rightharpoonup> DataResponse) \<times> WebSocketDataSource \<times> heap" where
  "QueryData unmarshal uid queries st = fold (QueryData_body unmarshal uid) queries (Map.empty, st)"

subsection \<open>Publishing\<close>

datatype PublishStreamStatus =
  PublishStreamStatusOK | PublishStreamStatusNotFound | PublishStreamStatusPermissionDenied

record PublishStreamRequest =
  pub_Path :: string
  pub_Data :: string

text \<open>
  \<open>PublishStream\<close>, lines 232-237: the response and the \<open>nil\<close> error, and the
  instance with its store as the call leaves them.
\<close>

definition PublishStream ::
  "PublishStreamRequest \<Rightarrow> WebSocketDataSource \<times> heap \<Rightarrow>
   (PublishStreamStatus \<times> string option) \<times> WebSocketDataSource \<times> heap" where
  "PublishStream req st = ((PublishStreamStatusPermissionDenied, None), st)"

section \<open>pkg/models/settings.go: loading the instance settings\<close>

text \<open>
  What \<open>json.Unmarshal\<close> puts into an \<open>any\<close>: \<open>nil\<close>, a bool, a number (kept as
  its text; only \<open>fmt.Sprint\<close> ever looks at it), a string, a slice or a
  \<open>map[string]any\<close>, the latter as its entries in the order a \<open>range\<close> visits them.
\<close>

datatype jsonv =
  JNull | JBool bool | JNumber string | JString string | JArray "jsonv list"
  | JObject "(string \<times> jsonv) list"

record SecretPluginSettings =
  ApiKey :: string
  secure :: gomap

record PluginSettings =
  Path_s :: string
  Headers :: gomap
  QueryParameters :: gomap
  Secrets :: "SecretPluginSettings option"

record DataSourceInstanceSettings =
  UID :: string
  URL :: string
  JSONData :: string
  DecryptedSecureJSONData :: gomap

text \<open>\<open>toString\<close>, lines 121-131; \<open>sprint\<close> is \<open>fmt.Sprint\<close>.\<close>

definition toString :: "(jsonv \<Rightarrow> string) \<Rightarrow> jsonv \<Rightarrow> string" where
  "toString sprint v = (case v of JNull \<Rightarrow> [] | JString t \<Rightarrow> t | _ \<Rightarrow> sprint v)"

definition hasPrefix :: "string \<Rightarrow> string \<Rightarrow> bool" where
  "hasPrefix s pre = (length s \<ge> length pre \<and> take (length pre) s = pre)"

text \<open>\<open>indexOf\<close>, lines 137-144: the loop from position \<open>i\<close> on, \<open>-1\<close> when it runs out.\<close>

function indexOf_from :: "string \<Rightarrow> string \<Rightarrow> nat \<Rightarrow> int" where
  "indexOf_from s substr i =
     (if i + length substr \<le> length s
      then (if take (length substr) (drop i s) = substr then int i
            else indexOf_from s substr (Suc i))
      else - 1)"
  by pat_completeness auto
termination
  by (relation "measure (\<lambda>(s, substr, i). Suc (length s) - i)") auto

declare indexOf_from.simps [simp del]

definition indexOf :: "string \<Rightarrow> string \<Rightarrow> int" where
  "indexOf s substr = indexOf_from s substr 0"

definition splitOnName :: "string \<Rightarrow> string list" where
  "splitOnName setting =
     (let idx = indexOf setting ''Name''
      in if idx \<ge> 0
         then [take (nat idx) setting, drop (nat idx + length ''Name'') setting]
         else [setting])"

definition prefixFromName :: "string \<Rightarrow> string" where
  "prefixFromName setting =
     (let parts = splitOnName setting in if length parts = 2 then parts ! 0 else [])"

definition suffixFromName :: "string \<Rightarrow> string" where
  "suffixFromName setting =
     (let parts = splitOnName setting in if length parts = 2 then parts ! 1 else [])"

text \<open>\<open>valueFor\<close> on a receiver that may be \<open>nil\<close>.\<close>

definition valueFor :: "SecretPluginSettings option \<Rightarrow> string \<Rightarrow> string \<Rightarrow> string" where
  "valueFor s pre suf =
     (case s of None \<Rightarrow> [] | Some s' \<Rightarrow> index_or_zero (secure s') (pre @ ''Value'' @ suf))"

definition HeaderValue :: "SecretPluginSettings option \<Rightarrow> string \<Rightarrow> string" where
  "HeaderValue s headerNameKey =
     valueFor s (prefixFromName headerNameKey) (suffixFromName headerNameKey)"

definition QueryParamValue :: "SecretPluginSettings option \<Rightarrow> string \<Rightarrow> string" where
  "QueryParamValue s paramNameKey =
     valueFor s (prefixFromName paramNameKey) (suffixFromName paramNameKey)"

definition loadSecretPluginSettings :: "gomap \<Rightarrow> SecretPluginSettings option" where
  "loadSecretPluginSettings source =
     Some \<lparr>ApiKey = index_or_zero source ''apiKey'', secure = source\<rparr>"

text \<open>
  The two loops of lines 38-51 have one body: store the entry unless its text is empty.
\<close>

definition structured_entry :: "(jsonv \<Rightarrow> string) \<Rightarrow> string \<times> jsonv \<Rightarrow> gomap \<Rightarrow> gomap" where
  "structured_entry sprint e m =
     (case e of (k, v) \<Rightarrow> (let s = toString sprint v in if s \<noteq> [] then AList.update k s m else m))"

definition structured :: "(jsonv \<Rightarrow> string) \<Rightarrow> jsonv option \<Rightarrow> gomap \<Rightarrow> gomap" where
  "structured sprint field m =
     (case field of Some (JObject entries) \<Rightarrow> fold (structured_entry sprint) entries m | _ \<Rightarrow> m)"

text \<open>The body of the loop of lines 54-68, for one entry of \<open>raw\<close>.\<close>

definition legacy_entry ::
  "(jsonv \<Rightarrow> string) \<Rightarrow> string \<times> jsonv \<Rightarrow> PluginSettings \<Rightarrow> PluginSettings" where
  "legacy_entry sprint e settings =
     (case e of (key, val) \<Rightarrow>
        if \<not> hasPrefix key ''headerName'' \<and> \<not> hasPrefix key ''queryParamName'' then settings
        else (let name = toString sprint val
              in if name = [] then settings
                 else if hasPrefix key ''headerName''
                   then settings\<lparr>Headers :=
                          AList.update name (HeaderValue (Secrets settings) key) (Headers settings)\<rparr>
                 else if hasPrefix key ''queryParamName''
                   then settings\<lparr>QueryParameters :=
                          AList.update name (QueryParamValue (Secrets settings) key)
                            (QueryParameters settings)\<rparr>
                 else settings))"

text \<open>
  \<open>LoadPluginSettings\<close>, lines 24-71. \<open>unmarshal\<close> is \<open>json.Unmarshal\<close> into
  \<open>map[string]any\<close>: the error text, or the entries of \<open>raw\<close>. A key that \<open>raw\<close>
  lacks reads as \<open>nil\<close>.
\<close>

definition LoadPluginSettings ::
  "(string \<Rightarrow> string + (string \<times> jsonv) list) \<Rightarrow> (jsonv \<Rightarrow> string) \<Rightarrow>
   DataSourceInstanceSettings \<Rightarrow> string + PluginSettings" where
  "LoadPluginSettings unmarshal sprint source =
     (case unmarshal (JSONData source) of
        Inl e \<Rightarrow> Inl (''could not unmarshal PluginSettings json: '' @ e)
      | Inr raw \<Rightarrow>
          (let settings = \<lparr>Path_s = toString sprint (case map_of raw ''path'' of None \<Rightarrow> JNull | Some v \<Rightarrow> v),
                           Headers = [], QueryParameters = [],
                           Secrets = loadSecretPluginSettings (DecryptedSecureJSONData source)\<rparr>;
               settings = settings\<lparr>Headers := structured sprint (map_of raw ''headers'') (Headers settings)\<rparr>;
               settings = settings\<lparr>QueryParameters :=
                            structured sprint (map_of raw ''queryParameters'') (QueryParameters settings)\<rparr>
           in Inr (fold (legacy_entry sprint) raw settings)))"

text \<open>
  \<open>NewWebSocketDataSource\<close>, lines 40-51: the two maps that \<open>LoadPluginSettings\<close>
  built become objects of the store, and the registry starts empty.
\<close>

definition store_map :: "gomap \<Rightarrow> heap \<Rightarrow> ref \<times> heap" where
  "store_map m h = (nxt h, h\<lparr>objs := (objs h)(nxt h := m), nxt := Suc (nxt h)\<rparr>)"

definition NewWebSocketDataSource ::
  "(string \<Rightarrow> string + (string \<times> jsonv) list) \<Rightarrow> (jsonv \<Rightarrow> string) \<Rightarrow>
   DataSourceInstanceSettings \<Rightarrow> heap \<Rightarrow> (string + WebSocketDataSource) \<times> heap" where
  "NewWebSocketDataSource unmarshal sprint ds h =
     (case LoadPluginSettings unmarshal sprint ds of
        Inl e \<Rightarrow> (Inl (''failed to read CustomSettings from the Query Request: '' @ e), h)
      | Inr settings \<Rightarrow>
          (let (hr, h1) = store_map (Headers settings) h;
               (qr, h2) = store_map (QueryParameters settings) h1
           in (Inr \<lparr>customHeaders = hr, customQueryParameters = qr, channelConfigs = Map.empty\<rparr>, h2)))"

section \<open>pkg/plugin: running a stream\<close>

subsection \<open>The outside world\<close>

text \<open>
  What a stream run does to its surroundings: \<open>sent\<close> are the frames handed to
  \<open>sender.SendFrame\<close>, in order (the call's error is only logged, so it is left
  out), and \<open>dials\<close> are the calls of \<open>websocket.DefaultDialer.Dial\<close>, each with its
  URL and headers.
\<close>

record world =
  sent :: "Frame list"
  dials :: "(string \<times> (string \<times> string) list) list"

text \<open>\<open>sendErrorFrame\<close>, lines 419-427.\<close>

definition sendErrorFrame :: "string \<Rightarrow> world \<Rightarrow> world" where
  "sendErrorFrame msg w =
     (let frame = NewFrame ''error'';
          frame = frame\<lparr>Fields := Fields frame @ [NewField ''error'' [msg]]\<rparr>
      in w\<lparr>sent := sent w @ [frame]\<rparr>)"

text \<open>
  The library functions the proxy calls are parameters: \<open>url.Parse\<close> (the error text,
  or the URL with its path and query apart from the rest), \<open>URL.String\<close>,
  \<open>url.Values.Encode\<close> on the pairs added, the dialler (\<open>None\<close> when the handshake
  succeeds, else the error text and the HTTP response if there is one),
  \<open>strings.TrimSpace\<close>, the \<open>%d\<close> verb, and \<open>json.Unmarshal\<close> into the relay's
  scratch map (its error and the map after the call).
\<close>

record url =
  url_Path :: string
  url_RawQuery :: string
  url_other :: string

record Response =
  StatusCode :: int
  Status :: string
  Body :: "string option"

record transport =
  url_Parse :: "string \<Rightarrow> string + url"
  url_String :: "url \<Rightarrow> string"
  Values_Encode :: "(string \<times> string) list \<Rightarrow> string"
  Dial :: "string \<Rightarrow> (string \<times> string) list \<Rightarrow> (string \<times> Response option) option"
  TrimSpace :: "string \<Rightarrow> string"
  Sprint_int :: "int \<Rightarrow> string"
  json_Unmarshal :: "string \<Rightarrow> (string \<times> jsonv) list \<Rightarrow> string option \<times> (string \<times> jsonv) list"

record RunStreamRequest =
  req_Path :: string
  req_URL :: string

subsection \<open>Building the proxy\<close>

text \<open>
  The proxy's channels and its connection are part of the running subscription below;
  the record holds the rest.
\<close>

record wsDataProxy =
  wsUrl :: string
  proxy_path :: string
  proxy_queryParams :: ref

text \<open>\<open>encodeURL\<close>, lines 369-387.\<close>

definition encodeURL :: "transport \<Rightarrow> wsDataProxy \<Rightarrow> heap \<Rightarrow> RunStreamRequest \<Rightarrow> string + string" where
  "encodeURL T wsdp h req =
     (case url_Parse T (req_URL req) of
        Inl e \<Rightarrow> Inl (''failed to parse host string from the Plugin's Config Editor: '' @ e)
      | Inr u \<Rightarrow>
          (let u1 = u\<lparr>url_Path := path_Join [url_Path u, proxy_path wsdp]\<rparr>;
               qps = fold (\<lambda>(n, v) vals. vals @ [(n, v)]) (objs h (proxy_queryParams wsdp)) [];
               u2 = u1\<lparr>url_RawQuery := Values_Encode T qps\<rparr>
           in Inr (url_String T u2)))"

text \<open>\<open>wsConnect\<close>, lines 389-417; \<open>dial_failure_text\<close> is \<open>msg\<close> of lines 399-411.\<close>

definition dial_failure_text :: "transport \<Rightarrow> string \<Rightarrow> Response option \<Rightarrow> string" where
  "dial_failure_text T e resp =
     (case resp of
        None \<Rightarrow> e
      | Some r \<Rightarrow>
          (let body = (case Body r of None \<Rightarrow> [] | Some b \<Rightarrow> TrimSpace T (take 1024 b));
               msg = e @ '' (status '' @ Sprint_int T (StatusCode r) @ '' '' @ Status r @ '')''
           in if body \<noteq> [] then msg @ '': '' @ body else msg))"

definition wsConnect ::
  "transport \<Rightarrow> WebSocketDataSource \<Rightarrow> heap \<Rightarrow> wsDataProxy \<Rightarrow> world \<Rightarrow> string option \<times> world" where
  "wsConnect T wsds h wsdp w =
     (let hdrs = fold (\<lambda>(n, v) hs. hs @ [(n, v)]) (objs h (customHeaders wsds)) [];
          w1 = w\<lparr>dials := dials w @ [(wsUrl wsdp, hdrs)]\<rparr>
      in (case Dial T (wsUrl wsdp) hdrs of
            Some (e, resp) \<Rightarrow> (Some (''websocket dial failed: '' @ dial_failure_text T e resp), w1)
          | None \<Rightarrow> (None, w1)))"

text \<open>\<open>NewWsDataProxy\<close>, lines 295-319.\<close>

definition NewWsDataProxy ::
  "transport \<Rightarrow> RunStreamRequest \<Rightarrow> WebSocketDataSource \<Rightarrow> heap \<Rightarrow> channelConfig \<Rightarrow> world \<Rightarrow>
   (string + wsDataProxy) \<times> world" where
  "NewWsDataProxy T req wsds h cfg w =
     (let wsdp = \<lparr>wsUrl = [], proxy_path = path cfg, proxy_queryParams = queryParams cfg\<rparr>
      in (case encodeURL T wsdp h req of
            Inl e \<Rightarrow> (Inl (''encode URL Error: '' @ e), w)
          | Inr u \<Rightarrow>
              (let wsdp1 = wsdp\<lparr>wsUrl := u\<rparr>
               in (case wsConnect T wsds h wsdp1 w of
                     (Some e, w1) \<Rightarrow> (Inl (''connection Error: '' @ e), w1)
                   | (None, w1) \<Rightarrow> (Inr wsdp1, w1)))))"

subsection \<open>The three activities of a running subscription\<close>

text \<open>
  Once the proxy exists, \<open>RunStream\<close> starts \<open>proxyMessage\<close> and \<open>readMessage\<close> as
  goroutines and waits in its \<open>select\<close>. The state of the subscription holds a
  program point for each of the three, the three channels, the connection, and what the
  upstream has delivered to the connection but \<open>ReadMessage\<close> has not yet returned.

  \<^item> \<open>msgRead\<close> and \<open>readingErrors\<close> are unbuffered: a send is a program point of the
    sender (\<open>RdSendMsg\<close>, \<open>RdSendErr\<close>) at which it stays until the receiver takes the
    item; \<open>msgRead\<close> can be closed.
  \<^item> \<open>done\<close> has room for one item: \<open>done_ch\<close> is its buffer.
  \<^item> \<open>err\<close> is the variable \<open>err\<close> of \<open>RunStream\<close>, \<open>None\<close> for \<open>nil\<close>.
  \<^item> \<open>clock\<close> counts the seconds that \<open>time.Sleep\<close> has let pass.
\<close>

datatype recv = Message string | RecvError string

datatype supervisor_pc = SupSelect | SupSendDone | SupReturned "string option" | SupPanicked

datatype reader_pc =
  RdSelect | RdRead | RdSleep string | RdSendErr string | RdSendMsg string | RdDefer | RdExit

datatype relay_pc = RlRecv | RlGot string | RlExit

record subscription =
  proxy :: wsDataProxy
  env :: world
  supervisor :: supervisor_pc
  err :: "string option"
  ctx_done :: bool
  done_ch :: "bool list"
  msgRead_closed :: bool
  conn_open :: bool
  inbound :: "recv list"
  reader :: reader_pc
  relay :: relay_pc
  rl_frame :: Frame
  rl_m :: "(string \<times> jsonv) list"
  clock :: nat

text \<open>
  The state right after the two \<open>go\<close> statements of lines 209 and 211: \<open>err\<close> is
  \<open>nil\<close>, since line 199 has returned otherwise; the relay has made its frame and its
  scratch map (lines 346-347).
\<close>

definition spawn :: "wsDataProxy \<Rightarrow> world \<Rightarrow> subscription" where
  "spawn p w =
     \<lparr>proxy = p, env = w, supervisor = SupSelect, err = None, ctx_done = False, done_ch = [],
      msgRead_closed = False, conn_open = True, inbound = [], reader = RdSelect, relay = RlRecv,
      rl_frame = NewFrame ''response'', rl_m = [], clock = 0\<rparr>"

text \<open>
  The supervisor, lines 213-228. At the \<open>select\<close> the schedule names the case to
  take, which must be ready. The first statement of the \<open>readingErrors\<close> case
  evaluates \<open>err.Error()\<close>: on a \<open>nil\<close> interface that is a run-time panic
  (\<open>SupPanicked\<close>); what the panic does to the rest of the process is not modelled.
\<close>

datatype select_case = CtxDone | ReadingErrors

definition after_read_error :: "string \<Rightarrow> subscription \<Rightarrow> subscription" where
  "after_read_error rError s =
     (case err s of
        None \<Rightarrow> s\<lparr>supervisor := SupPanicked\<rparr>
      | Some e \<Rightarrow>
          s\<lparr>env := sendErrorFrame (''Error reading the websocket: '' @ e) (env s),
            supervisor := SupReturned (Some rError)\<rparr>)"

definition supervisor_step :: "select_case \<Rightarrow> subscription \<Rightarrow> subscription option" where
  "supervisor_step c s =
     (case supervisor s of
        SupSelect \<Rightarrow>
          (case c of
             CtxDone \<Rightarrow> if ctx_done s then Some (s\<lparr>supervisor := SupSendDone\<rparr>) else None
           | ReadingErrors \<Rightarrow>
               (case reader s of
                  RdSendErr rError \<Rightarrow> Some (after_read_error rError (s\<lparr>reader := RdDefer\<rparr>))
                | _ \<Rightarrow> None))
      | SupSendDone \<Rightarrow>
          if length (done_ch s) < 1
          then Some (s\<lparr>done_ch := done_ch s @ [True], supervisor := SupReturned None\<rparr>)
          else None
      | _ \<Rightarrow> None)"

text \<open>
  \<open>readMessage\<close>, lines 321-343. \<open>RdRead\<close> is the call of \<open>ReadMessage\<close>, which
  returns only when the connection has something; \<open>RdDefer\<close> is the deferred function.
\<close>

definition reader_step :: "subscription \<Rightarrow> subscription option" where
  "reader_step s =
     (case reader s of
        RdSelect \<Rightarrow>
          (case done_ch s of
             b # bs \<Rightarrow> Some (s\<lparr>done_ch := bs, reader := RdDefer\<rparr>)
           | [] \<Rightarrow> Some (s\<lparr>reader := RdRead\<rparr>))
      | RdRead \<Rightarrow>
          (case inbound s of
             [] \<Rightarrow> None
           | Message m # rest \<Rightarrow> Some (s\<lparr>inbound := rest, reader := RdSendMsg m\<rparr>)
           | RecvError e # rest \<Rightarrow> Some (s\<lparr>inbound := rest, reader := RdSleep e\<rparr>))
      | RdSleep e \<Rightarrow>
          Some (s\<lparr>clock := clock s + 3,
                  reader := RdSendErr (''Error reading the websocket: '' @ e)\<rparr>)
      | RdSendErr e \<Rightarrow> None
      | RdSendMsg m \<Rightarrow> None
      | RdDefer \<Rightarrow> Some (s\<lparr>conn_open := False, msgRead_closed := True, reader := RdExit\<rparr>)
      | RdExit \<Rightarrow> None)"

text \<open>\<open>proxyMessage\<close>, lines 345-366.\<close>

definition relay_step :: "transport \<Rightarrow> subscription \<Rightarrow> subscription option" where
  "relay_step T s =
     (case relay s of
        RlRecv \<Rightarrow>
          (case reader s of
             RdSendMsg m \<Rightarrow> Some (s\<lparr>reader := RdSelect, relay := RlGot m\<rparr>)
           | _ \<Rightarrow> if msgRead_closed s then Some (s\<lparr>relay := RlExit\<rparr>) else None)
      | RlGot message \<Rightarrow>
          (let (e, m) = json_Unmarshal T message (rl_m s);
               frame = rl_frame s;
               frame = frame\<lparr>Fields := Fields frame @ [NewField ''data'' [message]]\<rparr>;
               w = (env s)\<lparr>sent := sent (env s) @ [frame]\<rparr>;
               frame = frame\<lparr>Fields := []\<rparr>
           in Some (s\<lparr>rl_m := m, rl_frame := frame, env := w, relay := RlRecv\<rparr>))
      | RlExit \<Rightarrow> None)"

datatype actor = Supervisor select_case | Reader | Relay

definition step :: "transport \<Rightarrow> actor \<Rightarrow> subscription \<Rightarrow> subscription option" where
  "step T a s =
     (case a of
        Supervisor c \<Rightarrow> supervisor_step c s
      | Reader \<Rightarrow> reader_step s
      | Relay \<Rightarrow> relay_step T s)"

text \<open>
  A schedule is a list of events: a goroutine is given the processor (and stays where it
  is when it cannot move), the caller cancels the context, or the upstream delivers
  something to the connection, as long as it is open.
\<close>

datatype event = Go actor | Cancel | Deliver recv

definition apply_event :: "transport \<Rightarrow> event \<Rightarrow> subscription \<Rightarrow> subscription" where
  "apply_event T ev s =
     (case ev of
        Go a \<Rightarrow> (case step T a s of None \<Rightarrow> s | Some s' \<Rightarrow> s')
      | Cancel \<Rightarrow> s\<lparr>ctx_done := True\<rparr>
      | Deliver r \<Rightarrow> if conn_open s then s\<lparr>inbound := inbound s @ [r]\<rparr> else s)"

definition run :: "transport \<Rightarrow> event list \<Rightarrow> subscription \<Rightarrow> subscription" where
  "run T sched s = fold (apply_event T) sched s"

text \<open>No goroutine can move.\<close>

definition quiescent :: "transport \<Rightarrow> subscription \<Rightarrow> bool" where
  "quiescent T s =
     (step T (Supervisor CtxDone) s = None \<and> step T (Supervisor ReadingErrors) s = None
      \<and> step T Reader s = None \<and> step T Relay s = None)"

subsection \<open>RunStream\<close>

text \<open>
  \<open>RunStream\<close>, lines 187-229: it returns before any goroutine is started
  (\<open>Returned_early\<close>, with the error and the world as left), or the subscription runs
  under the given schedule.
\<close>

datatype stream_run = Returned_early string world | Supervised subscription

definition RunStream ::
  "transport \<Rightarrow> WebSocketDataSource \<Rightarrow> heap \<Rightarrow> RunStreamRequest \<Rightarrow> event list \<Rightarrow> world \<Rightarrow> stream_run" where
  "RunStream T wsds h req sched w =
     (case getChannelConfig (req_Path req) wsds of
        None \<Rightarrow>
          (let e = ''no channel config found for '' @ req_Path req
           in Returned_early e (sendErrorFrame e w))
      | Some cfg \<Rightarrow>
          (case NewWsDataProxy T req wsds h cfg w of
             (Inl e, w1) \<Rightarrow> Returned_early e (sendErrorFrame (''Starting WebSocket: '' @ e) w1)
           | (Inr wsDataProxy, w1) \<Rightarrow> Supervised (run T sched (spawn wsDataProxy w1))))"

section \<open>Notions used in the statements\<close>

subsection \<open>What a batch of queries may touch\<close>

text \<open>
  \<open>refs_of\<close> are the map objects an instance reaches; \<open>heap_ok\<close> says that all of
  them have been handed out by the store. \<open>written\<close> are the registry keys a batch of
  queries writes: the channel paths of the queries whose payload decodes.
\<close>

definition refs_of :: "WebSocketDataSource \<Rightarrow> ref set" where
  "refs_of wsds =
     {customHeaders wsds, customQueryParameters wsds} \<union> queryParams ` ran (channelConfigs wsds)"

definition heap_ok :: "WebSocketDataSource \<Rightarrow> heap \<Rightarrow> bool" where
  "heap_ok wsds h = (\<forall>r \<in> refs_of wsds. r < nxt h)"

definition written :: "(string \<Rightarrow> string + queryModel) \<Rightarrow> DataQuery list \<Rightarrow> string set" where
  "written unmarshal queries =
     {c. \<exists>q \<in> set queries. \<exists>qm. unmarshal (JSON q) = Inr qm
           \<and> c = path_Join [path_Clean (WsPath qm), RefID q]}"

text \<open>
  \<open>unchanged\<close> relates the instance and store before a piece of query handling to
  those after it: the two instance-wide maps are the same objects, every object handed
  out before holds what it held, registry entries outside \<open>ks\<close> are as they were, and an
  entry that is new or rewritten refers to a map object handed out since.
\<close>

definition unchanged ::
  "string set \<Rightarrow> WebSocketDataSource \<times> heap \<Rightarrow> WebSocketDataSource \<times> heap \<Rightarrow> bool" where
  "unchanged ks st st' =
     (case (st, st') of ((wsds, h), (wsds', h')) \<Rightarrow>
        customHeaders wsds' = customHeaders wsds
      \<and> customQueryParameters wsds' = customQueryParameters wsds
      \<and> nxt h \<le> nxt h'
      \<and> (\<forall>r. r < nxt h \<longrightarrow> objs h' r = objs h r)
      \<and> (\<forall>c. c \<notin> ks \<longrightarrow> channelConfigs wsds' c = channelConfigs wsds c)
      \<and> (\<forall>c cfg. channelConfigs wsds' c = Some cfg \<longrightarrow>
            channelConfigs wsds c = Some cfg \<or> nxt h \<le> queryParams cfg))"

subsection \<open>Plain path elements\<close>

text \<open>A path element that is an ordinary name: not empty, not \<open>.\<close> or \<open>..\<close>, and free of slashes.\<close>

definition plain :: "string \<Rightarrow> bool" where
  "plain e = (e \<noteq> [] \<and> e \<noteq> ''.'' \<and> e \<noteq> ''..'' \<and> CHR ''/'' \<notin> set e)"

text \<open>A kept path element: not empty and free of slashes. Two slashes in a row somewhere in a path.\<close>

definition tidy :: "string \<Rightarrow> bool" where
  "tidy e = (e \<noteq> [] \<and> CHR ''/'' \<notin> set e)"

fun has_double_slash :: "string \<Rightarrow> bool" where
  "has_double_slash (a # b # cs) = (a = CHR ''/'' \<and> b = CHR ''/'' \<or> has_double_slash (b # cs))"
| "has_double_slash cs = False"

subsection \<open>Notions for stating what a subscription emits\<close>

text \<open>
  The frame the relay is expected to emit for a message; what a schedule delivers; the
  messages a subscription holds but has not emitted yet (in the relay's hand, in the
  reader's hand, in the connection); and the states of a subscription that is streaming:
  nobody has cancelled or failed, and both loops are inside their bodies.
\<close>

definition response_frame :: "string \<Rightarrow> Frame" where
  "response_frame m =
     \<lparr>Name = ''response'', Fields = [\<lparr>fname = ''data'', fvalues = [m]\<rparr>], Meta = None\<rparr>"







text \<open>
  An idle subscription: the read loop is blocked in \<open>ReadMessage\<close> on a connection
  that has nothing for it, the relay loop is blocked on the handoff, and the supervisor
  waits. \<open>idle_cancelled\<close> are the states such a subscription is in after a
  cancellation, as long as the connection has nothing to deliver.
\<close>

definition idle :: "subscription \<Rightarrow> bool" where
  "idle s =
     (supervisor s = SupSelect \<and> \<not> ctx_done s \<and> done_ch s = [] \<and> \<not> msgRead_closed s
      \<and> conn_open s \<and> inbound s = [] \<and> reader s = RdRead \<and> relay s = RlRecv
      \<and> rl_frame s = NewFrame ''response'')"

definition idle_cancelled :: "subscription \<Rightarrow> bool" where
  "idle_cancelled s =
     (ctx_done s \<and> \<not> msgRead_closed s \<and> conn_open s \<and> inbound s = []
      \<and> reader s = RdRead \<and> relay s = RlRecv
      \<and> (supervisor s = SupSelect \<and> done_ch s = []
          \<or> supervisor s = SupSendDone \<and> done_ch s = []
          \<or> supervisor s = SupReturned None \<and> done_ch s = [True]))"

text \<open>
  The events of a cancellation after which the supervisor has returned, and a schedule
  that lets both loops finish once a message has arrived after that.
\<close>

definition cancel_and_return :: "event list" where
  "cancel_and_return = [Cancel, Go (Supervisor CtxDone), Go (Supervisor CtxDone)]"

definition finish_loops :: "actor list" where
  "finish_loops = [Reader, Relay, Relay, Reader, Reader, Relay]"

subsection \<open>Notions for the failure paths\<close>

text \<open>
  \<open>unreported w s\<close>: the supervisor's \<open>err\<close> is \<open>nil\<close>, the supervisor has not
  returned an error, and every frame sent since the world was \<open>w\<close> is a response frame.

  \<open>late_phase m fs s\<close>: the states of a subscription whose supervisor has returned
  after a cancellation, whose connection then delivered the message \<open>m\<close>, and which had
  sent the frames \<open>fs\<close> before.
\<close>

definition unreported :: "world \<Rightarrow> subscription \<Rightarrow> bool" where
  "unreported w s =
     (err s = None
      \<and> (case supervisor s of SupReturned (Some e) \<Rightarrow> False | _ \<Rightarrow> True)
      \<and> Name (rl_frame s) = ''response''
      \<and> (\<exists>fs. sent (env s) = sent w @ fs \<and> list_all (\<lambda>f. Name f = ''response'') fs))"

definition late_phase :: "string \<Rightarrow> Frame list \<Rightarrow> subscription \<Rightarrow> bool" where
  "late_phase m fs s =
     (supervisor s = SupReturned None \<and> rl_frame s = NewFrame ''response''
      \<and> conn_open s = (\<not> msgRead_closed s)
      \<and> (case (reader s, relay s) of
            (RdRead, RlRecv) \<Rightarrow>
              inbound s = [Message m] \<and> done_ch s = [True] \<and> conn_open s \<and> sent (env s) = fs
          | (RdSendMsg m', RlRecv) \<Rightarrow>
              m' = m \<and> inbound s = [] \<and> done_ch s = [True] \<and> conn_open s \<and> sent (env s) = fs
          | (RdSelect, RlGot m') \<Rightarrow>
              m' = m \<and> inbound s = [] \<and> done_ch s = [True] \<and> conn_open s \<and> sent (env s) = fs
          | (RdDefer, RlGot m') \<Rightarrow>
              m' = m \<and> inbound s = [] \<and> done_ch s = [] \<and> conn_open s \<and> sent (env s) = fs
          | (RdExit, RlGot m') \<Rightarrow>
              m' = m \<and> inbound s = [] \<and> done_ch s = [] \<and> \<not> conn_open s \<and> sent (env s) = fs
          | (RdSelect, RlRecv) \<Rightarrow>
              inbound s = [] \<and> done_ch s = [True] \<and> conn_open s
              \<and> sent (env s) = fs @ [response_frame m]
          | (RdDefer, RlRecv) \<Rightarrow>
              inbound s = [] \<and> done_ch s = [] \<and> conn_open s
              \<and> sent (env s) = fs @ [response_frame m]
          | (RdExit, RlRecv) \<Rightarrow>
              inbound s = [] \<and> done_ch s = [] \<and> \<not> conn_open s
              \<and> sent (env s) = fs @ [response_frame m]
          | (RdExit, RlExit) \<Rightarrow>
              inbound s = [] \<and> done_ch s = [] \<and> \<not> conn_open s
              \<and> sent (env s) = fs @ [response_frame m]
          | _ \<Rightarrow> False))"

section \<open>Example inputs\<close>

text \<open>
  A store with the instance's header map at reference 0 and its default query parameters
  \<open>{a: "1", b: "2"}\<close> at reference 1, and an instance with an empty registry.
\<close>

definition ex_heap :: heap where
  "ex_heap = \<lparr>objs = (\<lambda>r. [])(0 := [(''X-Api-Key'', ''k'')], 1 := [(''a'', ''1''), (''b'', ''2'')]),
               nxt = 2\<rparr>"

definition ex_wsds :: WebSocketDataSource where
  "ex_wsds = \<lparr>customHeaders = 0, customQueryParameters = 1, channelConfigs = Map.empty\<rparr>"

text \<open>
  A decoder that knows three payloads and refuses every other one, three queries, and an
  instance that already holds one registry entry whose parameters are at reference 2.
\<close>

definition ex_unmarshal :: "string \<Rightarrow> string + queryModel" where
  "ex_unmarshal j =
     (if j = ''{path: foo/, queryParams: {b: 3, c: 4}}''
        then Inr \<lparr>WsPath = ''foo/'', QueryParams = [(''b'', ''3''), (''c'', ''4'')]\<rparr>
      else if j = ''{path: .}'' then Inr \<lparr>WsPath = ''.'', QueryParams = []\<rparr>
      else if j = ''{}'' then Inr \<lparr>WsPath = [], QueryParams = []\<rparr>
      else Inl ''invalid character'')"

definition ex_query_A :: DataQuery where
  "ex_query_A = \<lparr>RefID = ''A'', JSON = ''{path: foo/, queryParams: {b: 3, c: 4}}''\<rparr>"

definition ex_query_B :: DataQuery where
  "ex_query_B = \<lparr>RefID = ''B'', JSON = ''{}''\<rparr>"

definition ex_query_bad :: DataQuery where
  "ex_query_bad = \<lparr>RefID = ''C'', JSON = ''{path''\<rparr>"

definition ex_heap2 :: heap where
  "ex_heap2 = \<lparr>objs = (objs ex_heap)(2 := [(''z'', ''9'')]), nxt = 3\<rparr>"

definition ex_wsds2 :: WebSocketDataSource where
  "ex_wsds2 = ex_wsds\<lparr>channelConfigs := [''old/Z'' \<mapsto> \<lparr>path = ''old'', queryParams = 2\<rparr>]\<rparr>"

text \<open>
  Library functions for the examples: a dialler that always connects, and a
  \<open>json.Unmarshal\<close> that accepts only texts that start with a brace.
\<close>

definition ex_transport :: transport where
  "ex_transport =
     \<lparr>url_Parse = (\<lambda>u. Inr \<lparr>url_Path = [], url_RawQuery = [], url_other = u\<rparr>),
      url_String = (\<lambda>u. url_other u @ ''/'' @ url_Path u @ ''?'' @ url_RawQuery u),
      Values_Encode = (\<lambda>ps. concat (map (\<lambda>(k, v). k @ ''='' @ v @ ''&'') ps)),
      Dial = (\<lambda>u hs. None),
      TrimSpace = (\<lambda>b. b),
      Sprint_int = (\<lambda>i. ''403''),
      json_Unmarshal = (\<lambda>msg m. if take 1 msg = ''{'' then (None, m)
                                  else (Some ''invalid character'', m))\<rparr>"

definition ex_world :: world where
  "ex_world = \<lparr>sent = [], dials = []\<rparr>"

definition ex_request :: RunStreamRequest where
  "ex_request = \<lparr>req_Path = ''foo/A'', req_URL = ''ws://host''\<rparr>"

text \<open>
  The instance after the query \<open>A\<close> has registered its channel, and the proxy and the
  world that \<open>RunStream\<close> has built for that channel when it starts its goroutines.
\<close>

definition ex_registered :: "WebSocketDataSource \<times> heap" where
  "ex_registered = snd (query ex_unmarshal ''uid1'' ex_query_A (ex_wsds, ex_heap))"

definition ex_proxy :: wsDataProxy where
  "ex_proxy =
     \<lparr>wsUrl = ''ws://host/foo?a=1&b=3&c=4&'', proxy_path = ''foo/'', proxy_queryParams = 2\<rparr>"

definition ex_dialled :: world where
  "ex_dialled =
     \<lparr>sent = [], dials = [(''ws://host/foo?a=1&b=3&c=4&'', [(''X-Api-Key'', ''k'')])]\<rparr>"

text \<open>
  An interleaving that delivers three messages, the second of which is not JSON, while
  the loops are already at work; and an idle subscription.
\<close>

definition ex_schedule :: "event list" where
  "ex_schedule =
     [Go Reader, Deliver (Message ''{a: 1}''), Go Reader, Deliver (Message ''not json''),
      Go Relay, Go Reader, Go (Supervisor CtxDone), Go Reader, Go Relay, Go Reader, Go Relay,
      Deliver (Message ''{}''), Go Relay, Go Reader, Go Reader, Go Relay, Go Relay, Go Reader]"

definition ex_idle :: subscription where
  "ex_idle = run ex_transport [Go Reader] (spawn ex_proxy ex_dialled)"

text \<open>
  Events around a cancellation: the supervisor and both loops are scheduled after it;
  settings in which a structured header and a legacy key name the same header.
\<close>

definition ex_after_cancel :: "event list" where
  "ex_after_cancel =
     [Cancel, Go (Supervisor CtxDone), Go (Supervisor CtxDone), Go Reader, Go Relay]"

definition ex_settings_raw :: "(string \<times> jsonv) list" where
  "ex_settings_raw =
     [(''headers'', JObject [(''X-Api-Key'', JString ''structured'')]),
      (''headerName1'', JString ''X-Api-Key'')]"

definition ex_source :: DataSourceInstanceSettings where
  "ex_source =
     \<lparr>UID = ''uid1'', URL = ''ws://host'',
      JSONData = ''{headers: {X-Api-Key: structured}, headerName1: X-Api-Key}'',
      DecryptedSecureJSONData = [(''headerValue1'', ''legacy'')]\<rparr>"

definition ex_unmarshal_any :: "string \<Rightarrow> string + (string \<times> jsonv) list" where
  "ex_unmarshal_any j =
     (if j = ''{headers: {X-Api-Key: structured}, headerName1: X-Api-Key}''
      then Inr ex_settings_raw else Inl ''unexpected end of JSON input'')"

section \<open>Properties\<close>

subsection \<open>Ranging over one map and storing into another\<close>

lemma objs_map_assign:
  "objs (map_assign r k v h) r' = (if r' = r then AList.update k v (objs h r) else objs h r')"
  by (simp add: map_assign_def)

lemma nxt_map_assign: "nxt (map_assign r k v h) = nxt h"
  by (simp add: map_assign_def)

lemma objs_fold_assign_other:
  "r' \<noteq> r \<Longrightarrow> objs (fold (\<lambda>(k, v). map_assign r k v) es h) r' = objs h r'"
  by (induction es arbitrary: h) (auto simp: objs_map_assign)

lemma nxt_fold_assign: "nxt (fold (\<lambda>(k, v). map_assign r k v) es h) = nxt h"
  by (induction es arbitrary: h) (auto simp: nxt_map_assign)

lemma map_of_fold_assign:
  "wf_gomap es \<Longrightarrow>
   map_of (objs (fold (\<lambda>(k, v). map_assign r k v) es h) r) = map_of (objs h r) ++ map_of es"
proof (induction es arbitrary: h)
  case Nil
  then show ?case by simp
next
  case (Cons e es)
  obtain k v where e: "e = (k, v)" by (cases e)
  from Cons.prems have wf: "wf_gomap es" and fresh: "k \<notin> fst ` set es"
    by (auto simp: wf_gomap_def e)
  have none: "map_of es k = None"
    using fresh by (simp add: map_of_eq_None_iff)
  have "map_of (objs (fold (\<lambda>(k, v). map_assign r k v) (e # es) h) r)
        = map_of (AList.update k v (objs h r)) ++ map_of es"
    using Cons.IH [OF wf, of "map_assign r k v h"] by (simp add: e objs_map_assign)
  also have "\<dots> = map_of (objs h r) ++ map_of (e # es)"
    using none by (auto simp: e update_conv' map_add_def fun_eq_iff split: option.splits)
  finally show ?case .
qed

lemma wf_fold_assign:
  "wf_gomap (objs h r) \<Longrightarrow> wf_gomap (objs (fold (\<lambda>(k, v). map_assign r k v) es h) r)"
  by (induction es arbitrary: h) (auto simp: objs_map_assign wf_gomap_def distinct_update)

subsection \<open>Merging query parameters\<close>

lemma mergeQueryParams_eq:
  "mergeQueryParams wsds qps h = (merged, h') \<Longrightarrow>
   merged = nxt h \<and>
   h' = fold (\<lambda>(k, v). map_assign (nxt h) k v) qps
          (fold (\<lambda>(k, v). map_assign (nxt h) k v)
             (if customQueryParameters wsds = nxt h then [] else objs h (customQueryParameters wsds))
             (h\<lparr>objs := (objs h)(nxt h := []), nxt := Suc (nxt h)\<rparr>))"
  by (auto simp: mergeQueryParams_def make_map_def Let_def)

lemma mergeQueryParams_frame:
  assumes "mergeQueryParams wsds qps h = (merged, h')"
  shows "merged = nxt h" and "nxt h' = Suc (nxt h)" and "r \<noteq> nxt h \<Longrightarrow> objs h' r = objs h r"
  using mergeQueryParams_eq [OF assms]
  by (simp_all add: nxt_fold_assign objs_fold_assign_other)

lemma mergeQueryParams_lookup:
  assumes m: "mergeQueryParams wsds qps h = (merged, h')"
    and d: "wf_gomap (objs h (customQueryParameters wsds))"
    and q: "wf_gomap qps"
    and a: "customQueryParameters wsds < nxt h"
  shows "map_of (objs h' merged) = map_of (objs h (customQueryParameters wsds)) ++ map_of qps"
    and "wf_gomap (objs h' merged)"
proof -
  let ?h0 = "h\<lparr>objs := (objs h)(nxt h := []), nxt := Suc (nxt h)\<rparr>"
  let ?h1 = "fold (\<lambda>(k, v). map_assign (nxt h) k v) (objs h (customQueryParameters wsds)) ?h0"
  from a have ne: "customQueryParameters wsds \<noteq> nxt h" by simp
  from mergeQueryParams_eq [OF m] ne
  have eq: "merged = nxt h" "h' = fold (\<lambda>(k, v). map_assign (nxt h) k v) qps ?h1"
    by simp_all
  have "map_of (objs ?h1 (nxt h)) = map_of (objs ?h0 (nxt h)) ++ map_of (objs h (customQueryParameters wsds))"
    by (rule map_of_fold_assign [OF d])
  then have one: "map_of (objs ?h1 (nxt h)) = map_of (objs h (customQueryParameters wsds))"
    by simp
  show "map_of (objs h' merged) = map_of (objs h (customQueryParameters wsds)) ++ map_of qps"
    unfolding eq using map_of_fold_assign [OF q, of "nxt h" ?h1] one by simp
  have "wf_gomap (objs ?h0 (nxt h))" by (simp add: wf_gomap_def)
  then have "wf_gomap (objs ?h1 (nxt h))" by (rule wf_fold_assign)
  then show "wf_gomap (objs h' merged)" unfolding eq by (rule wf_fold_assign)
qed



text \<open>
  Claim C7. For all instance defaults and all per-query parameters, the map that
  \<open>mergeQueryParams\<close> returns has exactly the keys of the two inputs, and at every key
  it holds the query's value when the query has the key and the default's value
  otherwise. The witness is the spec's example: defaults \<open>{a: "1", b: "2"}\<close> merged
  with \<open>{b: "3", c: "4"}\<close> give \<open>{a: "1", b: "3", c: "4"}\<close>.
\<close>

theorem mergeQueryParams_query_wins:
  assumes "mergeQueryParams wsds qps h = (merged, h')"
    and "wf_gomap (objs h (customQueryParameters wsds))"
    and "wf_gomap qps"
    and "customQueryParameters wsds < nxt h"
  shows "fst ` set (objs h' merged) = fst ` set (objs h (customQueryParameters wsds)) \<union> fst ` set qps
       \<and> (\<forall>k. map_of (objs h' merged) k =
            (case map_of qps k of
               Some v \<Rightarrow> Some v
             | None \<Rightarrow> map_of (objs h (customQueryParameters wsds)) k))
       \<and> wf_gomap (objs h' merged)"
proof -
  note l = mergeQueryParams_lookup [OF assms]
  have "dom (map_of (objs h' merged)) = dom (map_of (objs h (customQueryParameters wsds))) \<union> dom (map_of qps)"
    by (simp add: l(1) Un_commute)
  then have keys: "fst ` set (objs h' merged) = fst ` set (objs h (customQueryParameters wsds)) \<union> fst ` set qps"
    by (simp add: dom_map_of_conv_image_fst)
  have "map_of (objs h' merged) k =
            (case map_of qps k of
               Some v \<Rightarrow> Some v
             | None \<Rightarrow> map_of (objs h (customQueryParameters wsds)) k)" for k
    by (simp add: l(1) map_add_def)
  with keys l(2) show ?thesis by blast
qed

theorem mergeQueryParams_query_wins_witness:
  "mergeQueryParams ex_wsds [(''b'', ''3''), (''c'', ''4'')] ex_heap
     = (2, ex_heap\<lparr>objs := (objs ex_heap)(2 := [(''a'', ''1''), (''b'', ''3''), (''c'', ''4'')]), nxt := 3\<rparr>)
   \<and> wf_gomap (objs ex_heap (customQueryParameters ex_wsds))
   \<and> wf_gomap [(''b'', ''3''), (''c'', ''4'')]
   \<and> customQueryParameters ex_wsds < nxt ex_heap
   \<and> map_of (objs (snd (mergeQueryParams ex_wsds [(''b'', ''3''), (''c'', ''4'')] ex_heap)) 2) ''b'' = Some ''3''
   \<and> map_of (objs (snd (mergeQueryParams ex_wsds [(''b'', ''3''), (''c'', ''4'')] ex_heap)) 2) ''a'' = Some ''1''
   \<and> map_of (objs (snd (mergeQueryParams ex_wsds [(''b'', ''3''), (''c'', ''4'')] ex_heap)) 2) ''c'' = Some ''4''
   \<and> fst ` set (objs (snd (mergeQueryParams ex_wsds [(''b'', ''3''), (''c'', ''4'')] ex_heap)) 2) = {''a'', ''b'', ''c''}"
proof -
  have m: "mergeQueryParams ex_wsds [(''b'', ''3''), (''c'', ''4'')] ex_heap
     = (2, ex_heap\<lparr>objs := (objs ex_heap)(2 := [(''a'', ''1''), (''b'', ''3''), (''c'', ''4'')]), nxt := 3\<rparr>)"
    by (simp add: mergeQueryParams_def make_map_def ex_heap_def ex_wsds_def map_assign_def)
  have d: "wf_gomap (objs ex_heap (customQueryParameters ex_wsds))"
    by (simp add: ex_heap_def ex_wsds_def wf_gomap_def)
  have q: "wf_gomap [(''b'', ''3''), (''c'', ''4'')]"
    by (simp add: wf_gomap_def)
  have a: "customQueryParameters ex_wsds < nxt ex_heap"
    by (simp add: ex_heap_def ex_wsds_def)
  from mergeQueryParams_query_wins [OF m d q a] m d q a show ?thesis
    by (simp add: ex_heap_def ex_wsds_def insert_commute)
qed

subsection \<open>The registry\<close>

text \<open>
  Claim C8. Registering a channel identifier a second time overwrites the entry: the
  lookup returns the second config alone, and the instance is the one that the second
  registration alone would have left, so nothing of the first config survives.
\<close>

theorem setChannelConfig_last_write_wins:
  "getChannelConfig c (setChannelConfig c p2 r2 (setChannelConfig c p1 r1 wsds))
     = Some \<lparr>path = p2, queryParams = r2\<rparr>
   \<and> setChannelConfig c p2 r2 (setChannelConfig c p1 r1 wsds) = setChannelConfig c p2 r2 wsds"
  by (simp add: getChannelConfig_def setChannelConfig_def)

subsection \<open>Publishing\<close>

text \<open>
  Claim C9. Whatever the publish request and whatever the state of the instance, the
  handler answers permission denied with no error, and leaves the instance and its
  store as they were.
\<close>

theorem PublishStream_permission_denied:
  "PublishStream req st = ((PublishStreamStatusPermissionDenied, None), st)"
  by (simp add: PublishStream_def)

subsection \<open>Channel paths\<close>

lemma split_slash_plain: "CHR ''/'' \<notin> set e \<Longrightarrow> split_slash e = [e]"
  by (induction e) auto

lemma split_slash_append:
  "CHR ''/'' \<notin> set e \<Longrightarrow> split_slash (e @ CHR ''/'' # rest) = e # split_slash rest"
  by (induction e) auto

lemma clean_elem_plain: "plain e \<Longrightarrow> clean_elem rooted e out = out @ [e]"
  by (simp add: clean_elem_def plain_def)

lemma path_Clean_trailing:
  assumes "plain p"
  shows "path_Clean (p @ ''/'') = p"
proof -
  from assms obtain c cs where p: "p = c # cs" and c: "c \<noteq> CHR ''/''"
    by (cases p) (auto simp: plain_def)
  have "split_slash (p @ ''/'') = [p, []]"
    using assms split_slash_append [of p "[]"] by (simp add: plain_def)
  then have "fold (clean_elem False) (split_slash (p @ ''/'')) [] = [p]"
    using assms by (simp add: clean_elem_plain) (simp add: clean_elem_def)
  then show ?thesis
    using c by (simp add: path_Clean_def p)
qed

lemma path_Join_plain:
  assumes "plain p" and "plain r"
  shows "path_Join [p, r] = p @ ''/'' @ r"
proof -
  from assms obtain c cs where p: "p = c # cs" and c: "c \<noteq> CHR ''/''"
    by (cases p) (auto simp: plain_def)
  have "split_slash (p @ ''/'' @ r) = [p, r]"
    using assms split_slash_append [of p r] by (simp add: plain_def split_slash_plain)
  then have "fold (clean_elem False) (split_slash (p @ ''/'' @ r)) [] = [p, r]"
    using assms by (simp add: clean_elem_plain)
  then have "path_Clean (p @ ''/'' @ r) = p @ ''/'' @ r"
    using c by (simp add: path_Clean_def p)
  then show ?thesis
    using assms by (simp add: path_Join_def plain_def)
qed

lemma path_Join_dot:
  assumes "plain r"
  shows "path_Join [''.'', r] = r"
proof -
  have "split_slash (''./'' @ r) = [''.'', r]"
    using assms split_slash_append [of "''.''" r] by (simp add: plain_def split_slash_plain)
  then have "fold (clean_elem False) (split_slash (''./'' @ r)) [] = [r]"
    using assms by (simp add: clean_elem_plain) (simp add: clean_elem_def)
  then have "path_Clean (''./'' @ r) = r"
    using assms by (simp add: path_Clean_def plain_def)
  then show ?thesis
    by (simp add: path_Join_def)
qed

lemma path_Clean_empty_dot: "path_Clean [] = ''.''" "path_Clean ''.'' = ''.''"
  by (simp_all add: path_Clean_def clean_elem_def)

text \<open>
  Cleaning collapses repeated separators and drops trailing ones, for every path: the
  cleaned path is not empty, has no two slashes in a row, and ends in a slash only when
  it is the root.
\<close>

lemma split_slash_free: "e \<in> set (split_slash p) \<Longrightarrow> CHR ''/'' \<notin> set e"
  by (induction p arbitrary: e) (auto split: if_splits list.splits)

lemma clean_elem_tidy:
  assumes "\<forall>e \<in> set out. tidy e" and "CHR ''/'' \<notin> set e'"
  shows "\<forall>e \<in> set (clean_elem rooted e' out). tidy e"
  using assms by (auto simp: clean_elem_def tidy_def dest: in_set_butlastD)

lemma fold_clean_elem_tidy:
  assumes "\<forall>e \<in> set out. tidy e" and "\<forall>e \<in> set es. CHR ''/'' \<notin> set e"
  shows "\<forall>e \<in> set (fold (clean_elem rooted) es out). tidy e"
  using assms
proof (induction es arbitrary: out)
  case Nil
  then show ?case by simp
next
  case (Cons e' es)
  from Cons.prems have "\<forall>e \<in> set (clean_elem rooted e' out). tidy e"
    by (intro clean_elem_tidy) simp_all
  with Cons.prems(2) show ?case
    by (simp add: Cons.IH)
qed

lemma has_double_slash_Cons:
  "has_double_slash (a # cs) =
     (a = CHR ''/'' \<and> cs \<noteq> [] \<and> hd cs = CHR ''/'' \<or> has_double_slash cs)"
  by (cases cs) simp_all

lemma has_double_slash_free: "CHR ''/'' \<notin> set e \<Longrightarrow> \<not> has_double_slash e"
  by (induction e) (auto simp: has_double_slash_Cons)

lemma has_double_slash_tidy_append:
  assumes "CHR ''/'' \<notin> set e" and "\<not> has_double_slash s" and "s = [] \<or> hd s \<noteq> CHR ''/''"
  shows "\<not> has_double_slash (e @ CHR ''/'' # s)"
  using assms(1)
proof (induction e)
  case Nil
  with assms(2,3) show ?case by (cases s) auto
next
  case (Cons a e)
  then show ?case by (auto simp: has_double_slash_Cons)
qed

lemma join_slash_tidy:
  assumes "\<forall>e \<in> set es. tidy e" and "es \<noteq> []"
  shows "\<not> has_double_slash (join_slash es) \<and> join_slash es \<noteq> []
       \<and> hd (join_slash es) \<noteq> CHR ''/'' \<and> last (join_slash es) \<noteq> CHR ''/''"
  using assms
proof (induction es rule: join_slash.induct)
  case 1
  then show ?case by simp
next
  case (2 e)
  then have t: "tidy e" by simp
  then have "\<not> has_double_slash e"
    by (simp add: tidy_def has_double_slash_free)
  moreover from t have "last e \<noteq> CHR ''/''" "hd e \<noteq> CHR ''/''"
    by (auto simp: tidy_def intro: last_in_set hd_in_set dest: last_in_set hd_in_set)
  ultimately show ?case using t by (simp add: tidy_def)
next
  case (3 e e' es)
  then have t: "tidy e" and ih: "\<not> has_double_slash (join_slash (e' # es))"
    "join_slash (e' # es) \<noteq> []" "hd (join_slash (e' # es)) \<noteq> CHR ''/''"
    "last (join_slash (e' # es)) \<noteq> CHR ''/''"
    by simp_all
  from t have "CHR ''/'' \<notin> set e" by (simp add: tidy_def)
  from has_double_slash_tidy_append [OF this ih(1)] ih(3)
  have "\<not> has_double_slash (e @ CHR ''/'' # join_slash (e' # es))" by simp
  moreover from t have "hd e \<noteq> CHR ''/''"
    by (auto simp: tidy_def dest: hd_in_set)
  ultimately show ?case using t ih by (cases e) (auto simp: tidy_def)
qed

lemma path_Clean_normal:
  "path_Clean p \<noteq> [] \<and> \<not> has_double_slash (path_Clean p)
   \<and> (last (path_Clean p) = CHR ''/'' \<longrightarrow> path_Clean p = ''/'')"
proof (cases p)
  case Nil
  then show ?thesis by (simp add: path_Clean_def)
next
  case (Cons c cs)
  let ?rooted = "c = CHR ''/''"
  let ?out = "fold (clean_elem ?rooted) (split_slash p) []"
  have tidy: "\<forall>e \<in> set ?out. tidy e"
    by (rule fold_clean_elem_tidy) (auto dest: split_slash_free)
  have eq: "path_Clean p =
      (if (if ?rooted then ''/'' else []) @ join_slash ?out = [] then ''.''
       else (if ?rooted then ''/'' else []) @ join_slash ?out)"
    by (simp add: path_Clean_def Cons Let_def)
  show ?thesis
  proof (cases "?out = []")
    case True
    then show ?thesis by (simp add: eq)
  next
    case False
    note j = join_slash_tidy [OF tidy False]
    show ?thesis
    proof (cases ?rooted)
      case True
      from j obtain a as where as: "join_slash ?out = a # as" and "a \<noteq> CHR ''/''"
        by (cases "join_slash ?out") auto
      with j True show ?thesis by (simp add: eq)
    next
      case False
      with j show ?thesis by (simp add: eq)
    qed
  qed
qed

text \<open>
  Claim C6. For every query whose payload decodes, the channel of the returned frame and
  the registry key are the cleaned query path joined with the ref id, and the cleaned
  path has no two slashes in a row and ends in a slash only when it is the root. Path
  \<open>foo/\<close> with ref id \<open>A\<close> gives \<open>foo/A\<close>; the empty path and \<open>.\<close> with ref id
  \<open>B\<close> give \<open>B\<close>; the same holds for every plain ref id and every plain path element
  followed by a slash.
\<close>

theorem query_channel_path:
  assumes "unmarshal (JSON q) = Inr qm"
    and "query unmarshal uid q (wsds, h) = (res, wsds', h')"
  shows "map Meta (Frames res)
           = [Some \<lparr>Scope = ''ds'', Namespace = uid,
                    Path = path_Join [path_Clean (WsPath qm), RefID q]\<rparr>]
       \<and> map_option path (getChannelConfig (path_Join [path_Clean (WsPath qm), RefID q]) wsds')
           = Some (WsPath qm)
       \<and> \<not> has_double_slash (path_Clean (WsPath qm))
       \<and> (last (path_Clean (WsPath qm)) = CHR ''/'' \<longrightarrow> path_Clean (WsPath qm) = ''/'')
       \<and> path_Join [path_Clean ''foo/'', ''A''] = ''foo/A''
       \<and> path_Join [path_Clean [], ''B''] = ''B''
       \<and> path_Join [path_Clean ''.'', ''B''] = ''B''
       \<and> (plain r \<longrightarrow> path_Join [path_Clean [], r] = r \<and> path_Join [path_Clean ''.'', r] = r)
       \<and> (plain p \<and> plain r \<longrightarrow> path_Join [path_Clean (p @ ''/''), r] = p @ ''/'' @ r)"
proof -
  obtain merged h1 where m: "mergeQueryParams wsds (QueryParams qm) h = (merged, h1)"
    by (cases "mergeQueryParams wsds (QueryParams qm) h")
  from assms m have res: "res = \<lparr>Frames = [(NewFrame ''response'')\<lparr>Meta := Some \<lparr>Scope = ''ds'', Namespace = uid,
                    Path = path_Join [path_Clean (WsPath qm), RefID q]\<rparr>\<rparr>], Error = None\<rparr>"
    and w: "wsds' = setChannelConfig (path_Join [path_Clean (WsPath qm), RefID q]) (WsPath qm) merged wsds"
    by (simp_all add: query_def Let_def)
  have 1: "map Meta (Frames res)
           = [Some \<lparr>Scope = ''ds'', Namespace = uid,
                    Path = path_Join [path_Clean (WsPath qm), RefID q]\<rparr>]"
    by (simp add: res)
  have 2: "map_option path (getChannelConfig (path_Join [path_Clean (WsPath qm), RefID q]) wsds')
           = Some (WsPath qm)"
    by (simp add: w getChannelConfig_def setChannelConfig_def)
  have B: "plain ''B''" and A: "plain ''A''" and foo: "plain ''foo''"
    by (simp_all add: plain_def)
  have 3: "path_Join [path_Clean ''foo/'', ''A''] = ''foo/A''"
    using path_Clean_trailing [OF foo] path_Join_plain [OF foo A] by simp
  have 4: "path_Join [path_Clean [], r] = r \<and> path_Join [path_Clean ''.'', r] = r" if "plain r" for r
    using path_Join_dot [OF that] by (simp add: path_Clean_empty_dot)
  have 5: "path_Join [path_Clean (p @ ''/''), r] = p @ ''/'' @ r" if "plain p" "plain r"
    using path_Clean_trailing [OF that(1)] path_Join_plain [OF that] by simp
  note 6 = path_Clean_normal [of "WsPath qm"]
  from 1 2 3 4 [OF B] 4 5 6 show ?thesis by simp
qed

theorem query_channel_path_witness:
  "ex_unmarshal (JSON ex_query_A) = Inr \<lparr>WsPath = ''foo/'', QueryParams = [(''b'', ''3''), (''c'', ''4'')]\<rparr>
   \<and> map Meta (Frames (fst (query ex_unmarshal ''uid1'' ex_query_A (ex_wsds, ex_heap))))
       = [Some \<lparr>Scope = ''ds'', Namespace = ''uid1'', Path = ''foo/A''\<rparr>]
   \<and> map_option path (getChannelConfig ''foo/A''
         (fst (snd (query ex_unmarshal ''uid1'' ex_query_A (ex_wsds, ex_heap))))) = Some ''foo/''
   \<and> plain ''B'' \<and> plain ''foo''
   \<and> path_Join [path_Clean [], ''B''] = ''B''
   \<and> path_Join [path_Clean ''.'', ''B''] = ''B''
   \<and> path_Join [path_Clean ''foo/'', ''B''] = ''foo/B''"
proof -
  let ?run = "query ex_unmarshal ''uid1'' ex_query_A (ex_wsds, ex_heap)"
  have d: "ex_unmarshal (JSON ex_query_A)
             = Inr \<lparr>WsPath = ''foo/'', QueryParams = [(''b'', ''3''), (''c'', ''4'')]\<rparr>"
    by (simp add: ex_unmarshal_def ex_query_A_def)
  have run: "?run = (fst ?run, fst (snd ?run), snd (snd ?run))"
    by simp
  have B: "plain ''B''" and foo: "plain ''foo''"
    by (simp_all add: plain_def)
  have A: "RefID ex_query_A = ''A''"
    by (simp add: ex_query_A_def)
  note t = query_channel_path [OF d run, of "''B''" "''foo''"]
  from t have eq: "path_Join [path_Clean ''foo/'', ''A''] = ''foo/A''"
    by blast
  from t have "map_option path (getChannelConfig (path_Join [path_Clean ''foo/'', RefID ex_query_A])
         (fst (snd ?run))) = Some ''foo/''"
    by simp
  then have reg: "map_option path (getChannelConfig ''foo/A'' (fst (snd ?run))) = Some ''foo/''"
    by (simp only: A eq)
  from t have "map Meta (Frames (fst ?run))
       = [Some \<lparr>Scope = ''ds'', Namespace = ''uid1'', Path = path_Join [path_Clean ''foo/'', RefID ex_query_A]\<rparr>]"
    by simp
  then have fr: "map Meta (Frames (fst ?run))
       = [Some \<lparr>Scope = ''ds'', Namespace = ''uid1'', Path = ''foo/A''\<rparr>]"
    by (simp only: A eq)
  from t B foo have rest: "path_Join [path_Clean [], ''B''] = ''B''"
    "path_Join [path_Clean ''.'', ''B''] = ''B''" "path_Join [path_Clean ''foo/'', ''B''] = ''foo/B''"
    by simp_all
  from d fr reg B foo rest show ?thesis by blast
qed

subsection \<open>Frame conditions of query handling\<close>

lemma unchanged_refl: "unchanged {} st st"
  by (cases st) (simp add: unchanged_def)

lemma unchanged_trans:
  assumes "unchanged ks st st'" and "unchanged ks' st' st''"
  shows "unchanged (ks \<union> ks') st st''"
proof -
  obtain w h w' h' w'' h'' where s: "st = (w, h)" "st' = (w', h')" "st'' = (w'', h'')"
    by (cases st, cases st', cases st'') auto
  from assms(1) have a:
    "customHeaders w' = customHeaders w" "customQueryParameters w' = customQueryParameters w"
    "nxt h \<le> nxt h'" "\<And>r. r < nxt h \<Longrightarrow> objs h' r = objs h r"
    "\<And>c. c \<notin> ks \<Longrightarrow> channelConfigs w' c = channelConfigs w c"
    "\<And>c cfg. channelConfigs w' c = Some cfg \<Longrightarrow>
        channelConfigs w c = Some cfg \<or> nxt h \<le> queryParams cfg"
    unfolding unchanged_def s by simp_all
  from assms(2) have b:
    "customHeaders w'' = customHeaders w'" "customQueryParameters w'' = customQueryParameters w'"
    "nxt h' \<le> nxt h''" "\<And>r. r < nxt h' \<Longrightarrow> objs h'' r = objs h' r"
    "\<And>c. c \<notin> ks' \<Longrightarrow> channelConfigs w'' c = channelConfigs w' c"
    "\<And>c cfg. channelConfigs w'' c = Some cfg \<Longrightarrow>
        channelConfigs w' c = Some cfg \<or> nxt h' \<le> queryParams cfg"
    unfolding unchanged_def s by simp_all
  have 1: "objs h'' r = objs h r" if "r < nxt h" for r
    using a(3) a(4) [OF that] b(4) [of r] that by simp
  have 2: "channelConfigs w'' c = channelConfigs w c" if "c \<notin> ks \<union> ks'" for c
    using a(5) [of c] b(5) [of c] that by simp
  have 3: "channelConfigs w c = Some cfg \<or> nxt h \<le> queryParams cfg"
    if "channelConfigs w'' c = Some cfg" for c cfg
    using b(6) [OF that] a(6) [of c cfg] a(3) by auto
  show ?thesis
    unfolding unchanged_def s using a(1-3) b(1-3) 1 2 3 by simp
qed

lemma heap_ok_setChannelConfig:
  assumes "heap_ok wsds h" and "r < nxt h"
  shows "heap_ok (setChannelConfig c p r wsds) h"
proof -
  have "ran ((channelConfigs wsds)(c \<mapsto> \<lparr>path = p, queryParams = r\<rparr>))
        \<subseteq> insert \<lparr>path = p, queryParams = r\<rparr> (ran (channelConfigs wsds))"
    by (auto simp: ran_def split: if_splits)
  then have "refs_of (setChannelConfig c p r wsds) \<subseteq> insert r (refs_of wsds)"
    by (auto simp: refs_of_def setChannelConfig_def)
  with assms show ?thesis
    by (auto simp: heap_ok_def)
qed

lemma heap_ok_mono: "heap_ok wsds h \<Longrightarrow> nxt h \<le> nxt h' \<Longrightarrow> heap_ok wsds h'"
  by (auto simp: heap_ok_def)

lemma query_unchanged:
  assumes ok: "heap_ok wsds h"
    and q: "query unmarshal uid q (wsds, h) = (res, wsds', h')"
  shows "unchanged (written unmarshal [q]) (wsds, h) (wsds', h') \<and> heap_ok wsds' h'"
proof (cases "unmarshal (JSON q)")
  case (Inl e)
  with q have "wsds' = wsds" "h' = h" by (simp_all add: query_def)
  with ok show ?thesis using unchanged_refl [of "(wsds, h)"]
    by (simp add: unchanged_def)
next
  case (Inr qm)
  let ?c = "path_Join [path_Clean (WsPath qm), RefID q]"
  obtain merged h1 where m: "mergeQueryParams wsds (QueryParams qm) h = (merged, h1)"
    by (cases "mergeQueryParams wsds (QueryParams qm) h")
  note f = mergeQueryParams_frame [OF m]
  from q Inr m have eq: "wsds' = setChannelConfig ?c (WsPath qm) merged wsds" "h' = h1"
    by (simp_all add: query_def Let_def)
  have w: "written unmarshal [q] = {?c}"
    by (auto simp: written_def Inr)
  have "heap_ok wsds h1" using ok f(2) by (auto intro: heap_ok_mono)
  then have ok': "heap_ok wsds' h'"
    unfolding eq by (rule heap_ok_setChannelConfig) (simp add: f)
  have "unchanged {?c} (wsds, h) (wsds', h')"
    unfolding unchanged_def eq using f(1,2) f(3)
    by (simp add: setChannelConfig_def)
  with ok' w show ?thesis by simp
qed

lemma written_Cons: "written unmarshal (q # qs) = written unmarshal [q] \<union> written unmarshal qs"
  by (auto simp: written_def)

lemma QueryData_unchanged_aux:
  assumes "heap_ok wsds h"
    and "fold (QueryData_body unmarshal uid) queries (rs0, (wsds, h)) = (rs, wsds', h')"
  shows "unchanged (written unmarshal queries) (wsds, h) (wsds', h') \<and> heap_ok wsds' h'"
  using assms
proof (induction queries arbitrary: rs0 wsds h)
  case Nil
  then show ?case using unchanged_refl [of "(wsds, h)"] by (simp add: written_def)
next
  case (Cons q qs)
  obtain res w1 h1 where q1: "query unmarshal uid q (wsds, h) = (res, w1, h1)"
    by (cases "query unmarshal uid q (wsds, h)")
  from query_unchanged [OF Cons.prems(1) q1]
  have u1: "unchanged (written unmarshal [q]) (wsds, h) (w1, h1)" and ok1: "heap_ok w1 h1"
    by simp_all
  have "QueryData_body unmarshal uid q (rs0, (wsds, h)) = (rs0(RefID q \<mapsto> res), (w1, h1))"
    by (simp add: QueryData_body_def q1)
  with Cons.prems(2)
  have "fold (QueryData_body unmarshal uid) qs (rs0(RefID q \<mapsto> res), (w1, h1)) = (rs, wsds', h')"
    by simp
  from Cons.IH [OF ok1 this]
  have u2: "unchanged (written unmarshal qs) (w1, h1) (wsds', h')" and ok': "heap_ok wsds' h'"
    by simp_all
  from u1 u2 have "unchanged (written unmarshal [q] \<union> written unmarshal qs) (wsds, h) (wsds', h')"
    by (rule unchanged_trans)
  with ok' show ?case by (simp add: written_Cons [of unmarshal q qs])
qed

text \<open>
  Claim C10. Handling any batch of queries (each one merges its parameters into a map of
  its own and registers one channel config) leaves the instance's default query
  parameters and its headers the same objects with the same contents, leaves the
  parameter map of every config stored before with the same contents, leaves every
  registry entry other than the ones written as it was, and gives each entry it writes
  a map object that the instance did not reach before. The instance is assumed to
  reach only map objects that the store has handed out.
\<close>

theorem QueryData_frame:
  assumes ok: "heap_ok wsds h"
    and run: "QueryData unmarshal uid queries (wsds, h) = (rs, wsds', h')"
  shows "customQueryParameters wsds' = customQueryParameters wsds
       \<and> objs h' (customQueryParameters wsds) = objs h (customQueryParameters wsds)
       \<and> customHeaders wsds' = customHeaders wsds
       \<and> objs h' (customHeaders wsds) = objs h (customHeaders wsds)
       \<and> (\<forall>c cfg. channelConfigs wsds c = Some cfg \<longrightarrow>
            objs h' (queryParams cfg) = objs h (queryParams cfg))
       \<and> (\<forall>c. c \<notin> written unmarshal queries \<longrightarrow> channelConfigs wsds' c = channelConfigs wsds c)
       \<and> (\<forall>c cfg. channelConfigs wsds' c = Some cfg \<longrightarrow>
            channelConfigs wsds c = Some cfg \<or> queryParams cfg \<notin> refs_of wsds)
       \<and> (\<forall>r. r < nxt h \<longrightarrow> objs h' r = objs h r)
       \<and> heap_ok wsds' h'"
proof -
  from QueryData_unchanged_aux [OF ok run [unfolded QueryData_def]]
  have u: "unchanged (written unmarshal queries) (wsds, h) (wsds', h')" and ok': "heap_ok wsds' h'"
    by simp_all
  have a: "customQueryParameters wsds < nxt h" "customHeaders wsds < nxt h"
    using ok by (simp_all add: heap_ok_def refs_of_def)
  have b: "queryParams cfg < nxt h" if "channelConfigs wsds c = Some cfg" for c cfg
    using ok that by (auto simp: heap_ok_def refs_of_def ran_def)
  have c: "r \<notin> refs_of wsds" if "nxt h \<le> r" for r
    using ok that by (auto simp: heap_ok_def)
  from u have u':
    "customHeaders wsds' = customHeaders wsds" "customQueryParameters wsds' = customQueryParameters wsds"
    "\<And>r. r < nxt h \<Longrightarrow> objs h' r = objs h r"
    "\<And>c. c \<notin> written unmarshal queries \<Longrightarrow> channelConfigs wsds' c = channelConfigs wsds c"
    "\<And>c cfg. channelConfigs wsds' c = Some cfg \<Longrightarrow>
        channelConfigs wsds c = Some cfg \<or> nxt h \<le> queryParams cfg"
    unfolding unchanged_def by simp_all
  have d: "channelConfigs wsds c = Some cfg \<or> queryParams cfg \<notin> refs_of wsds"
    if "channelConfigs wsds' c = Some cfg" for c cfg
    using u'(5) [OF that] c by auto
  show ?thesis
    using u'(1-4) a b d ok' by simp
qed

theorem QueryData_frame_witness:
  "heap_ok ex_wsds2 ex_heap2
   \<and> objs (snd (snd (QueryData ex_unmarshal ''uid1'' [ex_query_A, ex_query_bad, ex_query_B]
                        (ex_wsds2, ex_heap2)))) 1
       = [(''a'', ''1''), (''b'', ''2'')]
   \<and> objs (snd (snd (QueryData ex_unmarshal ''uid1'' [ex_query_A, ex_query_bad, ex_query_B]
                        (ex_wsds2, ex_heap2)))) 2
       = [(''z'', ''9'')]
   \<and> channelConfigs (fst (snd (QueryData ex_unmarshal ''uid1'' [ex_query_A, ex_query_bad, ex_query_B]
                        (ex_wsds2, ex_heap2)))) ''old/Z''
       = Some \<lparr>path = ''old'', queryParams = 2\<rparr>
   \<and> channelConfigs (fst (snd (QueryData ex_unmarshal ''uid1'' [ex_query_A, ex_query_bad, ex_query_B]
                        (ex_wsds2, ex_heap2)))) ''foo/A''
       = Some \<lparr>path = ''foo/'', queryParams = 3\<rparr>
   \<and> customQueryParameters (fst (snd (QueryData ex_unmarshal ''uid1''
                        [ex_query_A, ex_query_bad, ex_query_B] (ex_wsds2, ex_heap2)))) = 1"
proof -
  let ?run = "QueryData ex_unmarshal ''uid1'' [ex_query_A, ex_query_bad, ex_query_B] (ex_wsds2, ex_heap2)"
  have ok: "heap_ok ex_wsds2 ex_heap2"
    by (simp add: heap_ok_def refs_of_def ex_wsds2_def ex_wsds_def ex_heap2_def)
  have run: "?run = (fst ?run, fst (snd ?run), snd (snd ?run))"
    by simp
  have old: "channelConfigs ex_wsds2 ''old/Z'' = Some \<lparr>path = ''old'', queryParams = 2\<rparr>"
    by (simp add: ex_wsds2_def)
  have out: "''old/Z'' \<notin> written ex_unmarshal [ex_query_A, ex_query_bad, ex_query_B]"
    by (simp add: written_def ex_unmarshal_def ex_query_A_def ex_query_B_def ex_query_bad_def
        path_Join_def path_Clean_def clean_elem_def)
  have new: "channelConfigs (fst (snd ?run)) ''foo/A'' = Some \<lparr>path = ''foo/'', queryParams = 3\<rparr>"
    by (simp add: QueryData_def QueryData_body_def query_def ex_unmarshal_def ex_query_A_def
      ex_query_B_def ex_query_bad_def ex_wsds2_def ex_wsds_def ex_heap2_def ex_heap_def
      mergeQueryParams_def make_map_def map_assign_def setChannelConfig_def NewFrame_def
      path_Join_def path_Clean_def clean_elem_def)
  note f = QueryData_frame [OF ok run]
  from f have "objs (snd (snd ?run)) (customQueryParameters ex_wsds2)
                = objs ex_heap2 (customQueryParameters ex_wsds2)"
    by blast
  then have 1: "objs (snd (snd ?run)) 1 = [(''a'', ''1''), (''b'', ''2'')]"
    by (simp add: ex_wsds2_def ex_wsds_def ex_heap2_def ex_heap_def)
  from f old have "objs (snd (snd ?run)) (queryParams \<lparr>path = ''old'', queryParams = 2\<rparr>)
                = objs ex_heap2 (queryParams \<lparr>path = ''old'', queryParams = 2\<rparr>)"
    by blast
  then have 2: "objs (snd (snd ?run)) 2 = [(''z'', ''9'')]"
    by (simp add: ex_heap2_def)
  from f out have "channelConfigs (fst (snd ?run)) ''old/Z'' = channelConfigs ex_wsds2 ''old/Z''"
    by blast
  with old have 3: "channelConfigs (fst (snd ?run)) ''old/Z'' = Some \<lparr>path = ''old'', queryParams = 2\<rparr>"
    by simp
  from f have "customQueryParameters (fst (snd ?run)) = customQueryParameters ex_wsds2"
    by blast
  then have 4: "customQueryParameters (fst (snd ?run)) = 1"
    by (simp add: ex_wsds2_def ex_wsds_def)
  from ok 1 2 3 new 4 show ?thesis by blast
qed

subsection \<open>Instances as the constructor makes them\<close>

text \<open>
  The maps that \<open>LoadPluginSettings\<close> builds hold each key once, and the instance that
  \<open>NewWebSocketDataSource\<close> makes of them reaches only objects of the store: the
  assumptions of the statements about merging and about query handling hold for every
  instance the plugin creates.
\<close>

lemma wf_structured_entry: "wf_gomap m \<Longrightarrow> wf_gomap (structured_entry sprint e m)"
  by (cases e) (simp add: structured_entry_def Let_def wf_gomap_def distinct_update)

lemma wf_structured: "wf_gomap m \<Longrightarrow> wf_gomap (structured sprint field m)"
proof -
  have "wf_gomap m \<Longrightarrow> wf_gomap (fold (structured_entry sprint) es m)" for es
    by (induction es arbitrary: m) (simp_all add: wf_structured_entry)
  then show "wf_gomap m \<Longrightarrow> wf_gomap (structured sprint field m)"
    by (simp add: structured_def split: option.splits jsonv.splits)
qed

lemma wf_legacy_entry:
  assumes "wf_gomap (Headers st)" and "wf_gomap (QueryParameters st)"
  shows "wf_gomap (Headers (legacy_entry sprint e st))
       \<and> wf_gomap (QueryParameters (legacy_entry sprint e st))"
  using assms by (cases e) (simp add: legacy_entry_def Let_def wf_gomap_def distinct_update)

lemma wf_fold_legacy:
  assumes "wf_gomap (Headers st)" and "wf_gomap (QueryParameters st)"
  shows "wf_gomap (Headers (fold (legacy_entry sprint) raw st))
       \<and> wf_gomap (QueryParameters (fold (legacy_entry sprint) raw st))"
  using assms by (induction raw arbitrary: st) (simp_all add: wf_legacy_entry)

lemma LoadPluginSettings_wf:
  assumes "LoadPluginSettings unmarshal sprint source = Inr settings"
  shows "wf_gomap (Headers settings) \<and> wf_gomap (QueryParameters settings)"
proof -
  have e: "wf_gomap []" by (simp add: wf_gomap_def)
  from assms obtain raw st where "settings = fold (legacy_entry sprint) raw st"
    and "Headers st = structured sprint (map_of raw ''headers'') []"
    and "QueryParameters st = structured sprint (map_of raw ''queryParameters'') []"
    by (auto simp: LoadPluginSettings_def Let_def split: sum.splits)
  then show ?thesis
    using wf_fold_legacy [of st sprint raw] wf_structured [OF e] by simp
qed

lemma NewWebSocketDataSource_ok:
  assumes "NewWebSocketDataSource unmarshal sprint ds h = (Inr wsds, h')"
  shows "heap_ok wsds h' \<and> wf_gomap (objs h' (customQueryParameters wsds))
       \<and> wf_gomap (objs h' (customHeaders wsds)) \<and> channelConfigs wsds = Map.empty"
proof -
  from assms obtain settings where l: "LoadPluginSettings unmarshal sprint ds = Inr settings"
    and w: "wsds = \<lparr>customHeaders = nxt h, customQueryParameters = Suc (nxt h),
                   channelConfigs = Map.empty\<rparr>"
    and h': "h' = h\<lparr>objs := (objs h)(nxt h := Headers settings,
                                    Suc (nxt h) := QueryParameters settings),
                   nxt := Suc (Suc (nxt h))\<rparr>"
    by (auto simp: NewWebSocketDataSource_def store_map_def Let_def split: sum.splits)
  from LoadPluginSettings_wf [OF l] show ?thesis
    by (simp add: w h' heap_ok_def refs_of_def)
qed

subsection \<open>Structured settings and legacy keys\<close>

text \<open>
  Whatever the structured fields say: when exactly one legacy key \<open>headerName...\<close>
  names a header, the loaded settings hold for that header the secret that belongs to the
  legacy key, the empty text if there is none.
\<close>

lemma Secrets_legacy_entry: "Secrets (legacy_entry sprint e st) = Secrets st"
  by (cases e) (simp add: legacy_entry_def Let_def)

lemma Headers_legacy_entry:
  "map_of (Headers (legacy_entry sprint (k, v) st)) name =
     (if hasPrefix k ''headerName'' \<and> toString sprint v = name \<and> name \<noteq> []
      then Some (HeaderValue (Secrets st) k)
      else map_of (Headers st) name)"
  by (auto simp: legacy_entry_def Let_def update_conv')

lemma legacy_header_wins_fold:
  assumes "name \<noteq> []"
    and "\<forall>(k, v) \<in> set raw. hasPrefix k ''headerName'' \<and> toString sprint v = name \<longrightarrow> k = key"
  shows "map_of (Headers (fold (legacy_entry sprint) raw st)) name =
     (if \<exists>v. (key, v) \<in> set raw \<and> hasPrefix key ''headerName'' \<and> toString sprint v = name
      then Some (HeaderValue (Secrets st) key)
      else map_of (Headers st) name)"
  using assms(2)
proof (induction raw arbitrary: st)
  case Nil
  then show ?case by simp
next
  case (Cons e raw)
  obtain k v where e: "e = (k, v)" by (cases e)
  let ?st1 = "legacy_entry sprint (k, v) st"
  from Cons.prems have rest:
    "\<forall>(k, v) \<in> set raw. hasPrefix k ''headerName'' \<and> toString sprint v = name \<longrightarrow> k = key"
    and here: "hasPrefix k ''headerName'' \<and> toString sprint v = name \<longrightarrow> k = key"
    by (auto simp: e)
  have "map_of (Headers (fold (legacy_entry sprint) (e # raw) st)) name
        = map_of (Headers (fold (legacy_entry sprint) raw ?st1)) name"
    by (simp add: e)
  also have "\<dots> = (if \<exists>v. (key, v) \<in> set raw \<and> hasPrefix key ''headerName'' \<and> toString sprint v = name
      then Some (HeaderValue (Secrets st) key)
      else map_of (Headers ?st1) name)"
    by (simp only: Cons.IH [OF rest, of ?st1] Secrets_legacy_entry)
  also have "\<dots> = (if \<exists>v. (key, v) \<in> set (e # raw) \<and> hasPrefix key ''headerName'' \<and> toString sprint v = name
      then Some (HeaderValue (Secrets st) key)
      else map_of (Headers st) name)"
  proof (cases "hasPrefix k ''headerName'' \<and> toString sprint v = name")
    case True
    with here have "k = key" by simp
    with True assms(1) show ?thesis
      by (auto simp: e Headers_legacy_entry)
  next
    case False
    then have "map_of (Headers ?st1) name = map_of (Headers st) name"
      by (simp only: Headers_legacy_entry) auto
    moreover from False have "(\<exists>v. (key, v) \<in> set (e # raw) \<and> hasPrefix key ''headerName'' \<and> toString sprint v = name)
        = (\<exists>v. (key, v) \<in> set raw \<and> hasPrefix key ''headerName'' \<and> toString sprint v = name)"
      by (auto simp: e)
    ultimately show ?thesis by (simp only:)
  qed
  finally show ?case .
qed

lemma legacy_header_overrides:
  assumes "unmarshal (JSONData source) = Inr raw"
    and "(key, v) \<in> set raw" and "hasPrefix key ''headerName''"
    and "toString sprint v = name" and "name \<noteq> []"
    and "\<forall>(k, v) \<in> set raw. hasPrefix k ''headerName'' \<and> toString sprint v = name \<longrightarrow> k = key"
  shows "\<exists>settings. LoadPluginSettings unmarshal sprint source = Inr settings
           \<and> map_of (Headers settings) name
               = Some (index_or_zero (DecryptedSecureJSONData source)
                         (prefixFromName key @ ''Value'' @ suffixFromName key))"
proof -
  have "\<exists>v. (key, v) \<in> set raw \<and> hasPrefix key ''headerName'' \<and> toString sprint v = name"
    using assms(2-4) by blast
  then have "map_of (Headers (fold (legacy_entry sprint) raw st)) name
               = Some (HeaderValue (Secrets st) key)" for st
    by (simp only: legacy_header_wins_fold [OF assms(5,6)] if_True)
  moreover have "HeaderValue (loadSecretPluginSettings (DecryptedSecureJSONData source)) key
      = index_or_zero (DecryptedSecureJSONData source)
                         (prefixFromName key @ ''Value'' @ suffixFromName key)"
    by (simp add: HeaderValue_def valueFor_def loadSecretPluginSettings_def)
  ultimately show ?thesis
    by (simp add: LoadPluginSettings_def assms(1) Let_def)
qed

text \<open>
  Claim C2 fails on the code. The structured field \<open>headers\<close> gives \<open>X-Api-Key\<close> the
  text \<open>structured\<close>, the legacy key \<open>headerName1\<close> names the same header, and the
  secret \<open>headerValue1\<close> is \<open>legacy\<close>: the loaded settings hold \<open>legacy\<close>, since
  the loop over the legacy keys runs last and stores without looking.
\<close>

theorem LoadPluginSettings_legacy_overrides:
  "LoadPluginSettings ex_unmarshal_any sprint ex_source
     = Inr \<lparr>Path_s = [], Headers = [(''X-Api-Key'', ''legacy'')], QueryParameters = [],
            Secrets = Some \<lparr>ApiKey = [], secure = [(''headerValue1'', ''legacy'')]\<rparr>\<rparr>
   \<and> map_of ex_settings_raw ''headers'' = Some (JObject [(''X-Api-Key'', JString ''structured'')])"
  by (simp add: LoadPluginSettings_def ex_unmarshal_any_def ex_source_def ex_settings_raw_def
      structured_def structured_entry_def legacy_entry_def toString_def hasPrefix_def
      HeaderValue_def loadSecretPluginSettings_def valueFor_def prefixFromName_def
      suffixFromName_def splitOnName_def indexOf_def indexOf_from.simps index_or_zero_def)

subsection \<open>Evaluating schedules\<close>

lemmas step_defs = run_def apply_event_def step_def supervisor_step_def reader_step_def relay_step_def
  after_read_error_def spawn_def NewFrame_def NewField_def quiescent_def

lemma run_append: "run T (xs @ ys) s = run T ys (run T xs s)"
  by (simp add: run_def)

text \<open>
  When the channel is registered and the proxy can be built, \<open>RunStream\<close> is the
  running subscription; so it is for the registered example.
\<close>

lemma RunStream_supervised:
  assumes "getChannelConfig (req_Path req) wsds = Some cfg"
    and "NewWsDataProxy T req wsds h cfg w = (Inr p, w1)"
  shows "RunStream T wsds h req sched w = Supervised (run T sched (spawn p w1))"
  using assms by (simp add: RunStream_def)

lemma ex_registered_eq:
  "ex_registered =
     (ex_wsds\<lparr>channelConfigs := [''foo/A'' \<mapsto> \<lparr>path = ''foo/'', queryParams = 2\<rparr>]\<rparr>,
      ex_heap\<lparr>objs := (objs ex_heap)(2 := [(''a'', ''1''), (''b'', ''3''), (''c'', ''4'')]), nxt := 3\<rparr>)"
  by (simp add: ex_registered_def query_def ex_unmarshal_def ex_query_A_def ex_wsds_def ex_heap_def
      mergeQueryParams_def make_map_def map_assign_def setChannelConfig_def NewFrame_def
      path_Join_def path_Clean_def clean_elem_def)

lemma ex_RunStream:
  "RunStream ex_transport (fst ex_registered) (snd ex_registered) ex_request sched ex_world
     = Supervised (run ex_transport sched (spawn ex_proxy ex_dialled))"
proof -
  have cfg: "getChannelConfig (req_Path ex_request) (fst ex_registered)
               = Some \<lparr>path = ''foo/'', queryParams = 2\<rparr>"
    by (simp add: ex_registered_eq getChannelConfig_def ex_request_def)
  have "NewWsDataProxy ex_transport ex_request (fst ex_registered) (snd ex_registered)
          \<lparr>path = ''foo/'', queryParams = 2\<rparr> ex_world = (Inr ex_proxy, ex_dialled)"
    by (simp add: ex_registered_eq NewWsDataProxy_def encodeURL_def wsConnect_def ex_transport_def
        ex_request_def ex_world_def ex_proxy_def ex_dialled_def ex_wsds_def ex_heap_def
        path_Join_def path_Clean_def clean_elem_def)
  with cfg show ?thesis by (rule RunStream_supervised)
qed

subsection \<open>A channel without a registry entry\<close>

text \<open>
  Claim C4. When the registry has no entry for the requested channel path, \<open>RunStream\<close>
  returns the missing-config error before any goroutine starts, whatever the schedule
  would have been; it has sent exactly one frame, the error frame with that message, and
  the list of dials is the one it found.
\<close>

theorem RunStream_missing_config:
  assumes "getChannelConfig (req_Path req) wsds = None"
  shows "RunStream T wsds h req sched w
         = Returned_early (''no channel config found for '' @ req_Path req)
             (w\<lparr>sent := sent w @ [\<lparr>Name = ''error'',
                    Fields = [\<lparr>fname = ''error'',
                               fvalues = [''no channel config found for '' @ req_Path req]\<rparr>],
                    Meta = None\<rparr>]\<rparr>)"
  using assms by (simp add: RunStream_def sendErrorFrame_def NewFrame_def NewField_def Let_def)

theorem RunStream_missing_config_witness:
  "getChannelConfig (req_Path ex_request) ex_wsds = None
   \<and> RunStream ex_transport ex_wsds ex_heap ex_request ex_schedule ex_world
       = Returned_early ''no channel config found for foo/A''
           \<lparr>sent = [\<lparr>Name = ''error'',
                      Fields = [\<lparr>fname = ''error'', fvalues = [''no channel config found for foo/A'']\<rparr>],
                      Meta = None\<rparr>],
            dials = []\<rparr>"
proof -
  have n: "getChannelConfig (req_Path ex_request) ex_wsds = None"
    by (simp add: getChannelConfig_def ex_wsds_def)
  from RunStream_missing_config [OF n, of ex_transport ex_heap ex_schedule ex_world] n
  show ?thesis by (simp add: ex_request_def ex_world_def)
qed

subsection \<open>A streaming subscription relays in order\<close>















subsection \<open>A receive failure\<close>

text \<open>
  Under every schedule a running subscription keeps \<open>err\<close> at \<open>nil\<close>, so the
  supervisor never gets past the first statement of the \<open>readingErrors\<close> case: it
  never returns a read error, and no frame other than response frames is ever sent.
\<close>

lemma unreported_step:
  assumes "unreported w s" and "step T a s = Some s'"
  shows "unreported w s'"
proof (cases a)
  case (Supervisor c)
  with assms show ?thesis
    by (cases c; cases "supervisor s")
       (auto simp: unreported_def step_def supervisor_step_def after_read_error_def
          split: reader_pc.splits if_splits)
next
  case Reader
  with assms show ?thesis
    by (auto simp: unreported_def step_def reader_step_def
          split: reader_pc.splits list.splits recv.splits)
next
  case Relay
  with assms show ?thesis
    by (auto simp: unreported_def step_def relay_step_def NewField_def case_prod_beta Let_def
          split: relay_pc.splits reader_pc.splits if_splits)
qed

lemma unreported_event:
  assumes "unreported w s"
  shows "unreported w (apply_event T ev s)"
proof (cases ev)
  case (Go a)
  with assms unreported_step [OF assms, of T a] show ?thesis
    by (cases "step T a s") (simp_all add: apply_event_def)
next
  case Cancel
  with assms show ?thesis by (simp add: apply_event_def unreported_def)
next
  case (Deliver r)
  with assms show ?thesis by (simp add: apply_event_def unreported_def)
qed

lemma unreported_run: "unreported w s \<Longrightarrow> unreported w (run T sched s)"
  unfolding run_def by (induction sched arbitrary: s) (simp_all add: unreported_event)

lemma read_error_never_reported: "unreported w (run T sched (spawn p w))"
  by (rule unreported_run) (simp add: unreported_def spawn_def NewFrame_def)

text \<open>
  Claim C1 fails on the code. When \<open>ReadMessage\<close> fails on a running subscription,
  the read loop sleeps three seconds and offers the error to the supervisor; the
  supervisor takes it and then evaluates \<open>err.Error()\<close> on the \<open>nil\<close> \<open>err\<close> of
  line 198 instead of \<open>rError\<close>: it panics, no error frame has been sent, and it does
  not return the read error.
\<close>

theorem read_error_panics:
  "run T [Deliver (RecvError e), Go Reader, Go Reader, Go Reader, Go (Supervisor ReadingErrors)]
      (spawn p w)
   = (spawn p w)\<lparr>supervisor := SupPanicked, reader := RdDefer, clock := 3\<rparr>
   \<and> sent (env (run T [Deliver (RecvError e), Go Reader, Go Reader, Go Reader,
                        Go (Supervisor ReadingErrors)] (spawn p w))) = sent w
   \<and> RunStream ex_transport (fst ex_registered) (snd ex_registered) ex_request
         [Deliver (RecvError ''EOF''), Go Reader, Go Reader, Go Reader,
          Go (Supervisor ReadingErrors)] ex_world
       = Supervised ((spawn ex_proxy ex_dialled)
           \<lparr>supervisor := SupPanicked, reader := RdDefer, clock := 3\<rparr>)"
  by (simp add: ex_RunStream) (simp add: step_defs)

subsection \<open>Cancelling an idle subscription\<close>

lemma idle_cancelled_step:
  assumes "idle_cancelled s" and "step T a s = Some s'"
  shows "idle_cancelled s' \<and> env s' = env s"
proof (cases a)
  case (Supervisor c)
  with assms show ?thesis
    by (cases c) (auto simp: idle_cancelled_def step_def supervisor_step_def split: if_splits)
next
  case Reader
  with assms show ?thesis by (simp add: idle_cancelled_def step_def reader_step_def)
next
  case Relay
  with assms show ?thesis by (simp add: idle_cancelled_def step_def relay_step_def)
qed

lemma idle_cancelled_run:
  assumes "idle_cancelled s"
  shows "idle_cancelled (run T (map Go acts) s) \<and> env (run T (map Go acts) s) = env s"
  using assms
proof (induction acts arbitrary: s)
  case Nil
  then show ?case by (simp add: run_def)
next
  case (Cons a acts)
  show ?case
  proof (cases "step T a s")
    case None
    with Cons show ?thesis by (simp add: run_def apply_event_def)
  next
    case (Some s')
    from idle_cancelled_step [OF Cons.prems Some] Cons.IH [of s'] Some
    show ?thesis by (simp add: run_def apply_event_def)
  qed
qed

lemma idle_cancel: "idle s \<Longrightarrow> idle_cancelled (s\<lparr>ctx_done := True\<rparr>)"
  by (simp add: idle_def idle_cancelled_def)

lemma late_phase_step:
  assumes "late_phase m fs s" and "step T a s = Some s'"
  shows "late_phase m fs s'"
proof (cases a)
  case (Supervisor c)
  with assms show ?thesis
    by (simp add: late_phase_def step_def supervisor_step_def)
next
  case Reader
  with assms show ?thesis
    by (cases "reader s"; cases "relay s")
       (auto simp: late_phase_def step_def reader_step_def)
next
  case Relay
  with assms show ?thesis
    by (cases "reader s"; cases "relay s")
       (auto simp: late_phase_def step_def relay_step_def response_frame_def NewFrame_def
          NewField_def case_prod_beta split: if_splits)
qed

lemma late_phase_run:
  assumes "late_phase m fs s"
  shows "late_phase m fs (run T (map Go acts) s)"
  using assms
proof (induction acts arbitrary: s)
  case Nil
  then show ?case by (simp add: run_def)
next
  case (Cons a acts)
  show ?case
  proof (cases "step T a s")
    case None
    with Cons show ?thesis by (simp add: run_def apply_event_def)
  next
    case (Some s')
    from Cons.IH [OF late_phase_step [OF Cons.prems Some]] Some
    show ?thesis by (simp add: run_def apply_event_def)
  qed
qed

lemma late_phase_sent:
  assumes "late_phase m fs s"
  shows "sent (env s) = fs \<or> sent (env s) = fs @ [response_frame m]"
  using assms
  by (cases "reader s"; cases "relay s") (auto simp: late_phase_def)

lemma late_phase_quiescent:
  assumes "late_phase m fs s" and "quiescent T s"
  shows "reader s = RdExit \<and> relay s = RlExit \<and> \<not> conn_open s
       \<and> sent (env s) = fs @ [response_frame m]"
  using assms
  by (cases "reader s"; cases "relay s")
     (auto simp: late_phase_def quiescent_def step_def reader_step_def relay_step_def
        case_prod_beta Let_def)

lemma late_phase_start:
  assumes "idle s"
  shows "late_phase m (sent (env s)) (run T (cancel_and_return @ [Deliver (Message m)]) s)"
  using assms by (simp add: idle_def late_phase_def cancel_and_return_def step_defs)

text \<open>
  What the stop protocol does for an idle subscription, under every schedule. The
  supervisor puts the stop signal into \<open>done\<close> and returns \<open>nil\<close> without sending
  a frame, and nothing closes the connection: as long as the connection delivers
  nothing, the connection stays open, the read loop stays in \<open>ReadMessage\<close>, the relay
  loop stays at the handoff. Only a message that arrives after the supervisor has
  returned lets the read loop see the signal: the message is relayed as one more
  response frame before the connection and the handoff are closed.
\<close>

lemma cancel_idle_stays_open:
  assumes "idle s"
  shows "conn_open (run T (Cancel # map Go acts) s)
       \<and> reader (run T (Cancel # map Go acts) s) = RdRead
       \<and> relay (run T (Cancel # map Go acts) s) = RlRecv
       \<and> sent (env (run T (Cancel # map Go acts) s)) = sent (env s)
       \<and> supervisor (run T cancel_and_return s) = SupReturned None
       \<and> done_ch (run T cancel_and_return s) = [True]
       \<and> (sent (env (run T (cancel_and_return @ Deliver (Message m) # map Go acts) s))
             = sent (env s)
          \<or> sent (env (run T (cancel_and_return @ Deliver (Message m) # map Go acts) s))
             = sent (env s) @ [response_frame m])
       \<and> (quiescent T (run T (cancel_and_return @ Deliver (Message m) # map Go acts) s) \<longrightarrow>
            sent (env (run T (cancel_and_return @ Deliver (Message m) # map Go acts) s))
              = sent (env s) @ [response_frame m]
            \<and> \<not> conn_open (run T (cancel_and_return @ Deliver (Message m) # map Go acts) s)
            \<and> msgRead_closed (run T (cancel_and_return @ Deliver (Message m) # map Go acts) s)
            \<and> reader (run T (cancel_and_return @ Deliver (Message m) # map Go acts) s) = RdExit
            \<and> relay (run T (cancel_and_return @ Deliver (Message m) # map Go acts) s) = RlExit)
       \<and> quiescent T (run T (cancel_and_return @ Deliver (Message m) # map Go finish_loops) s)"
proof -
  let ?late = "run T (cancel_and_return @ Deliver (Message m) # map Go acts) s"
  have r: "run T (Cancel # map Go acts) s = run T (map Go acts) (s\<lparr>ctx_done := True\<rparr>)"
    by (simp add: run_def apply_event_def)
  from idle_cancelled_run [OF idle_cancel [OF assms], of T acts]
  have 1: "conn_open (run T (Cancel # map Go acts) s)
       \<and> reader (run T (Cancel # map Go acts) s) = RdRead
       \<and> relay (run T (Cancel # map Go acts) s) = RlRecv
       \<and> sent (env (run T (Cancel # map Go acts) s)) = sent (env s)"
    unfolding r by (simp add: idle_cancelled_def)
  from assms have 2: "supervisor (run T cancel_and_return s) = SupReturned None"
    "done_ch (run T cancel_and_return s) = [True]"
    by (simp_all add: idle_def cancel_and_return_def step_defs)
  have split: "?late = run T (map Go acts) (run T (cancel_and_return @ [Deliver (Message m)]) s)"
    by (simp add: run_def)
  have lp: "late_phase m (sent (env s)) ?late"
    unfolding split by (rule late_phase_run [OF late_phase_start [OF assms]])
  note 3 = late_phase_sent [OF lp]
  from lp have "conn_open ?late = (\<not> msgRead_closed ?late)"
    by (simp add: late_phase_def)
  then have 4: "sent (env ?late) = sent (env s) @ [response_frame m]
            \<and> \<not> conn_open ?late \<and> msgRead_closed ?late
            \<and> reader ?late = RdExit \<and> relay ?late = RlExit"
    if "quiescent T ?late"
    using late_phase_quiescent [OF lp that] by simp
  from assms have 5: "quiescent T (run T (cancel_and_return @ Deliver (Message m) # map Go finish_loops) s)"
    by (simp add: idle_def cancel_and_return_def finish_loops_def step_defs case_prod_beta)
  from 1 2 3 4 5 show ?thesis by blast
qed

text \<open>
  The same stop protocol does tear the subscription down when the cancellation finds the
  read loop at its \<open>select\<close>: the loop takes the signal, its deferred function closes
  the connection and the handoff, the relay loop ends, and no frame is sent.
\<close>

lemma cancel_at_select_closes:
  "run T [Cancel, Go (Supervisor CtxDone), Go (Supervisor CtxDone), Go Reader, Go Reader, Go Relay]
      (spawn p w)
   = (spawn p w)\<lparr>supervisor := SupReturned None, ctx_done := True, msgRead_closed := True,
                  conn_open := False, reader := RdExit, relay := RlExit\<rparr>"
  by (simp add: step_defs)

text \<open>
  When the receive of a cancelled idle subscription ends in a failure instead, the read
  loop sleeps and then offers the error on \<open>readingErrors\<close>, which nobody reads any
  more: it never reaches its deferred function, the connection stays open and the relay
  loop stays at the handoff, for ever.
\<close>

lemma late_error_leaks:
  assumes "idle s"
  shows "quiescent T (run T (cancel_and_return @ Deliver (RecvError e)
                              # map Go [Reader, Reader, Reader, Relay]) s)
       \<and> run T (cancel_and_return @ Deliver (RecvError e) # map Go [Reader, Reader, Reader, Relay]) s
           = s\<lparr>supervisor := SupReturned None, ctx_done := True, done_ch := [True],
                reader := RdSendErr (''Error reading the websocket: '' @ e),
                clock := clock s + 3\<rparr>"
  using assms by (simp add: idle_def cancel_and_return_def step_defs)

text \<open>
  Claim C3 fails on the code. \<open>RunStream\<close> runs on the registered example until the
  subscription is idle; then the context is cancelled, the supervisor runs until it has
  returned \<open>nil\<close>, and both loops are scheduled. The supervisor has only sent the stop
  signal: the connection is still open, the read loop is still in \<open>ReadMessage\<close>, the
  relay loop is still at the handoff, and no goroutine can move. The claim says that the
  connection is closed and both loops have halted, as the same protocol achieves when
  the read loop is at its \<open>select\<close>.
\<close>

theorem cancel_idle_leaks:
  "RunStream ex_transport (fst ex_registered) (snd ex_registered) ex_request
       (Go Reader # ex_after_cancel) ex_world
     = Supervised (run ex_transport ex_after_cancel ex_idle)
   \<and> idle ex_idle
   \<and> supervisor (run ex_transport ex_after_cancel ex_idle) = SupReturned None
   \<and> done_ch (run ex_transport ex_after_cancel ex_idle) = [True]
   \<and> conn_open (run ex_transport ex_after_cancel ex_idle)
   \<and> msgRead_closed (run ex_transport ex_after_cancel ex_idle) = False
   \<and> reader (run ex_transport ex_after_cancel ex_idle) = RdRead
   \<and> relay (run ex_transport ex_after_cancel ex_idle) = RlRecv
   \<and> quiescent ex_transport (run ex_transport ex_after_cancel ex_idle)"
proof -
  have "run ex_transport (Go Reader # ex_after_cancel) (spawn ex_proxy ex_dialled)
          = run ex_transport ex_after_cancel ex_idle"
    by (simp add: ex_idle_def run_def)
  then have "RunStream ex_transport (fst ex_registered) (snd ex_registered) ex_request
       (Go Reader # ex_after_cancel) ex_world
     = Supervised (run ex_transport ex_after_cancel ex_idle)"
    by (simp only: ex_RunStream)
  moreover have "idle ex_idle
   \<and> supervisor (run ex_transport ex_after_cancel ex_idle) = SupReturned None
   \<and> done_ch (run ex_transport ex_after_cancel ex_idle) = [True]
   \<and> conn_open (run ex_transport ex_after_cancel ex_idle)
   \<and> msgRead_closed (run ex_transport ex_after_cancel ex_idle) = False
   \<and> reader (run ex_transport ex_after_cancel ex_idle) = RdRead
   \<and> relay (run ex_transport ex_after_cancel ex_idle) = RlRecv
   \<and> quiescent ex_transport (run ex_transport ex_after_cancel ex_idle)"
    by (simp add: ex_idle_def ex_after_cancel_def idle_def step_defs)
  ultimately show ?thesis by blast
qed

end
